theory Spec2Isabelle
  imports Main "HOL-Library.AList"
begin

section \<open>JavaScript values and the object heap\<close>

text \<open>
  The adapter of \<^verbatim>\<open>src/d3Conduit.js\<close> is a factory \<^verbatim>\<open>d3Conduit(initFn, renderFn,
  originalOptions)\<close> that returns a React component class. Its arguments are arbitrary
  JavaScript values, and the options object is mutated in place and shared by reference,
  so objects live in an explicit heap and values refer to them by address.

  Scope of the value model: \<^verbatim>\<open>undefined\<close>, \<^verbatim>\<open>null\<close>, booleans, integral numbers,
  strings, and references to heap objects. A heap object is an extensible object with
  writable, enumerable data properties kept in insertion order; it may be callable (a
  function) and it may be the wrapper that \<^verbatim>\<open>Object(v)\<close> builds around a primitive.
  Prototype chains, non-enumerable properties, accessors, frozen objects, symbols and
  non-integral numbers are outside the model. A number \<open>VNum i\<close> stands for the double
  nearest to \<open>i\<close>.
\<close>

type_synonym addr = nat

datatype jsval = VUndefined | VNull | VBool bool | VNum int | VStr string | VRef addr

record jsobj =
  callable :: bool
  wrapped :: "jsval option"
  props :: "(string \<times> jsval) list"

type_synonym heap = "jsobj list"

datatype error = Error string | TypeError

definition plain_obj :: "(string \<times> jsval) list \<Rightarrow> jsobj" where
  "plain_obj ps = \<lparr>callable = False, wrapped = None, props = ps\<rparr>"

definition fun_obj :: jsobj where
  "fun_obj = \<lparr>callable = True, wrapped = None, props = []\<rparr>"

definition obj_at :: "heap \<Rightarrow> addr \<Rightarrow> jsobj" where
  \<comment> \<open>the object a reference denotes; a reference always denotes an allocated object,
      the second branch only makes the function total\<close>
  "obj_at h a = (if a < length h then h ! a else plain_obj [])"

definition alloc :: "jsobj \<Rightarrow> heap \<Rightarrow> addr \<times> heap" where
  "alloc ob h = (length h, h @ [ob])"

subsection \<open>Decimal numerals\<close>

function dec :: "nat \<Rightarrow> string" where
  "dec n = (if n < 10 then [char_of (48 + n)] else dec (n div 10) @ [char_of (48 + n mod 10)])"
  by pat_completeness auto
termination
  by (relation "measure id") auto

declare dec.simps [simp del]

subsection \<open>Numbers as doubles\<close>

text \<open>
  A JavaScript number is a double. Of the numbers only the integers occur here, and an
  integer stands for the double nearest to it: \<open>round_double\<close> rounds a natural number
  to 53 significant bits, a tie going to the even significand, and overflows to Infinity
  from \<open>2 ^ 1024\<close> on. Up to \<open>2 ^ 53\<close> every integer is its own double.
\<close>

function bitlen :: "nat \<Rightarrow> nat" where
  "bitlen n = (if n = 0 then 0 else Suc (bitlen (n div 2)))"
  by pat_completeness auto
termination
  by (relation "measure id") auto

declare bitlen.simps [simp del]

definition round_double :: "nat \<Rightarrow> nat option" where
  \<comment> \<open>\<open>None\<close> is Infinity\<close>
  "round_double m =
     (if bitlen m \<le> 53 then Some m
      else
        (let e = bitlen m - 53;
             q = m div 2 ^ e;
             r = m mod 2 ^ e;
             half = 2 ^ (e - 1);
             x = (if half < r \<or> (r = half \<and> odd q) then q + 1 else q) * 2 ^ e
         in if 1024 < bitlen x then None else Some x))"

text \<open>
  \<^verbatim>\<open>Number::toString\<close> prints the decimal with the fewest significant digits that
  still denotes the double, the closest one when there are several (the even one on a
  tie). For an integral double \<open>x\<close> the candidates with the digits below \<open>10 ^ p\<close>
  cleared are the two multiples of \<open>10 ^ p\<close> around \<open>x\<close>; \<open>shortest\<close> tries them from
  the coarsest \<open>p\<close> down. The result is printed in full up to 21 digits and with an
  exponent beyond.
\<close>

function shortest :: "nat \<Rightarrow> nat \<Rightarrow> nat" where
  "shortest x p =
     (if p = 0 then x
      else
        (let lo = x - x mod 10 ^ p;
             hi = lo + 10 ^ p;
             ok_lo = (round_double lo = Some x);
             ok_hi = (round_double hi = Some x)
         in if ok_lo \<and> ok_hi then
              (if x - lo < hi - x then lo
               else if hi - x < x - lo then hi
               else if even (lo div 10 ^ p) then lo else hi)
            else if ok_lo then lo
            else if ok_hi then hi
            else shortest x (p - 1)))"
  by pat_completeness auto
termination
  by (relation "measure (\<lambda>(x, p). p)") auto

declare shortest.simps [simp del]

definition show_double :: "nat \<Rightarrow> string" where
  "show_double x =
     (let ds = dec (shortest x (length (dec x) - 1));
          n = length ds;
          sig = rev (dropWhile (\<lambda>c. c = CHR ''0'') (rev ds))
      in if n \<le> 21 then ds
         else hd sig # (if tl sig = [] then [] else CHR ''.'' # tl sig) @ ''e+'' @ dec (n - 1))"

definition show_int :: "int \<Rightarrow> string" where
  \<comment> \<open>\<^verbatim>\<open>String(n)\<close> for the double nearest to an integer\<close>
  "show_int i =
     (case round_double (nat \<bar>i\<bar>) of
        None \<Rightarrow> (if i < 0 then ''-Infinity'' else ''Infinity'')
      | Some x \<Rightarrow> (if i < 0 then CHR ''-'' # show_double x else show_double x))"

subsection \<open>Property access\<close>

definition index_keys :: "string \<Rightarrow> string list" where
  "index_keys s = map dec [0..<length s]"

definition readonly :: "jsobj \<Rightarrow> string \<Rightarrow> bool" where
  \<comment> \<open>the character properties \<^verbatim>\<open>"0"\<close>, \<^verbatim>\<open>"1"\<close>, ... of a String wrapper are not writable\<close>
  "readonly ob k = (case wrapped ob of Some (VStr s) \<Rightarrow> k \<in> set (index_keys s) | _ \<Rightarrow> False)"

definition getp :: "heap \<Rightarrow> addr \<Rightarrow> string \<Rightarrow> jsval" where
  \<comment> \<open>\<^verbatim>\<open>object[key]\<close>: an absent property reads as \<^verbatim>\<open>undefined\<close>\<close>
  "getp h a k = (case map_of (props (obj_at h a)) k of None \<Rightarrow> VUndefined | Some v \<Rightarrow> v)"

definition putp :: "heap \<Rightarrow> addr \<Rightarrow> string \<Rightarrow> jsval \<Rightarrow> heap" where
  \<comment> \<open>\<^verbatim>\<open>object[key] = value\<close> in non-strict code (lodash): a write to a read-only
      property is ignored\<close>
  "putp h a k v =
     (if readonly (obj_at h a) k then h
      else h[a := (obj_at h a)\<lparr>props := AList.update k v (props (obj_at h a))\<rparr>])"

definition setp :: "heap \<Rightarrow> addr \<Rightarrow> string \<Rightarrow> jsval \<Rightarrow> (error + unit) \<times> heap" where
  \<comment> \<open>the throwing \<^verbatim>\<open>Set(to, key, value, true)\<close> of \<^verbatim>\<open>Object.assign\<close>\<close>
  "setp h a k v =
     (if readonly (obj_at h a) k then (Inl TypeError, h) else (Inr (), putp h a k v))"

definition is_function :: "heap \<Rightarrow> jsval \<Rightarrow> bool" where
  \<comment> \<open>\<^verbatim>\<open>typeof v === 'function'\<close>\<close>
  "is_function h v = (case v of VRef a \<Rightarrow> callable (obj_at h a) | _ \<Rightarrow> False)"

definition wrapper :: "jsval \<Rightarrow> jsobj" where
  \<comment> \<open>the wrapper object of a primitive; a String wrapper owns one enumerable
      property per character\<close>
  "wrapper v =
     \<lparr>callable = False, wrapped = Some v,
      props = (case v of VStr s \<Rightarrow> map (\<lambda>i. (dec i, VStr [s ! i])) [0..<length s] | _ \<Rightarrow> [])\<rparr>"

definition js_Object :: "jsval \<Rightarrow> heap \<Rightarrow> addr \<times> heap" where
  \<comment> \<open>\<^verbatim>\<open>Object(value)\<close>: an object is returned as it is, \<^verbatim>\<open>undefined\<close> and
      \<^verbatim>\<open>null\<close> give a new empty object, a primitive gives a new wrapper\<close>
  "js_Object v h =
     (case v of
        VRef a \<Rightarrow> (a, h)
      | VUndefined \<Rightarrow> alloc (plain_obj []) h
      | VNull \<Rightarrow> alloc (plain_obj []) h
      | _ \<Rightarrow> alloc (wrapper v) h)"

definition ToObject :: "jsval \<Rightarrow> heap \<Rightarrow> (error + addr) \<times> heap" where
  \<comment> \<open>the abstract operation ToObject: throws on \<^verbatim>\<open>undefined\<close> and \<^verbatim>\<open>null\<close>\<close>
  "ToObject v h =
     (case v of
        VUndefined \<Rightarrow> (Inl TypeError, h)
      | VNull \<Rightarrow> (Inl TypeError, h)
      | _ \<Rightarrow> (case js_Object v h of (a, h') \<Rightarrow> (Inr a, h')))"

section \<open>The Options Resolver\<close>

text \<open>
  The defaults are the object literal of lines 29--38. It is created afresh by every
  factory call and \<^verbatim>\<open>defaultsDeep\<close> copies its nested objects instead of linking
  them, so no reference to it survives the call: it is modelled as a tree.
\<close>

datatype dflt = DNum int | DObj "(string \<times> dflt) list"

definition default_options :: "(string \<times> dflt) list" where
  "default_options =
     [(''width'', DNum 900),
      (''height'', DNum 500),
      (''margin'', DObj [(''top'', DNum 120), (''right'', DNum 50),
                         (''bottom'', DNum 150), (''left'', DNum 150)])]"

text \<open>
  lodash's \<^verbatim>\<open>defaultsDeep(object, source)\<close> is \<^verbatim>\<open>mergeWith\<close> with the customizer
  \<^verbatim>\<open>customDefaultsMerge\<close>. For each key of the source, in order:
  \<^item> a source value that is not an object is assigned when the destination property
    resolves to \<^verbatim>\<open>undefined\<close>, and is dropped otherwise;
  \<^item> a source object is merged recursively into the destination value when that is an
    object (or a function); when the destination property resolves to \<^verbatim>\<open>undefined\<close>
    a new empty object is filled from the source and then assigned; any other
    destination value (\<^verbatim>\<open>null\<close> or a primitive) is kept.
  The source is a tree, so lodash's stack of visited source objects never finds an entry
  and is left out. The recursion follows the source, not the destination: it terminates
  on cyclic destination objects too.
\<close>

function baseMerge :: "addr \<Rightarrow> (string \<times> dflt) list \<Rightarrow> heap \<Rightarrow> heap" where
  "baseMerge a [] h = h"
| "baseMerge a ((k, DNum n) # src) h =
     baseMerge a src (if getp h a k = VUndefined then putp h a k (VNum n) else h)"
| "baseMerge a ((k, DObj sub) # src) h =
     baseMerge a src
       (case getp h a k of
          VRef b \<Rightarrow> baseMerge b sub h
        | VUndefined \<Rightarrow>
            (case alloc (plain_obj []) h of (b, h1) \<Rightarrow> putp (baseMerge b sub h1) a k (VRef b))
        | _ \<Rightarrow> h)"
  by pat_completeness auto
termination
  by (relation "measure (\<lambda>(a, src, h). size_list (size_prod (\<lambda>_. 0) size) src)") auto

definition defaultsDeep :: "jsval \<Rightarrow> (string \<times> dflt) list \<Rightarrow> heap \<Rightarrow> jsval \<times> heap" where
  \<comment> \<open>\<^verbatim>\<open>object = Object(object)\<close>, merge, \<^verbatim>\<open>return object\<close>\<close>
  "defaultsDeep object src h =
     (case js_Object object h of (a, h1) \<Rightarrow> (VRef a, baseMerge a src h1))"

fun assign_keys :: "addr \<Rightarrow> addr \<Rightarrow> string list \<Rightarrow> heap \<Rightarrow> (error + unit) \<times> heap" where
  "assign_keys to from [] h = (Inr (), h)"
| "assign_keys to from (k # ks) h =
     (case setp h to k (getp h from k) of
        (Inl e, h') \<Rightarrow> (Inl e, h')
      | (Inr _, h') \<Rightarrow> assign_keys to from ks h')"

definition Object_assign :: "jsval \<Rightarrow> jsval \<Rightarrow> heap \<Rightarrow> (error + addr) \<times> heap" where
  \<comment> \<open>\<^verbatim>\<open>Object.assign(target, source)\<close>: the own enumerable keys of the source are
      listed once, then copied one by one; the result is the target object\<close>
  "Object_assign target source h =
     (case ToObject target h of
        (Inl e, h1) \<Rightarrow> (Inl e, h1)
      | (Inr to, h1) \<Rightarrow>
          (case source of
             VUndefined \<Rightarrow> (Inr to, h1)
           | VNull \<Rightarrow> (Inr to, h1)
           | _ \<Rightarrow>
               (case js_Object source h1 of (from, h2) \<Rightarrow>
                  (case assign_keys to from (map fst (props (obj_at h2 from))) h2 of
                     (Inl e, h3) \<Rightarrow> (Inl e, h3)
                   | (Inr _, h3) \<Rightarrow> (Inr to, h3)))))"

section \<open>The Adapter Factory\<close>

text \<open>
  The returned class \<^verbatim>\<open>D3Container\<close> is the closure over the two callbacks and the
  resolved options object, together with its static \<^verbatim>\<open>displayName\<close>.
\<close>

record component =
  c_initFn :: jsval
  c_renderFn :: jsval
  c_options :: addr
  c_displayName :: jsval

definition d3Conduit :: "jsval \<Rightarrow> jsval \<Rightarrow> jsval \<Rightarrow> heap \<Rightarrow> (error + component) \<times> heap" where
  "d3Conduit initFn renderFn originalOptions h =
     (if \<not> is_function h initFn then (Inl (Error ''must provide an initialise function''), h)
      else if \<not> is_function h renderFn then (Inl (Error ''must provide a render function''), h)
      else
        (case defaultsDeep originalOptions default_options h of (merged, h1) \<Rightarrow>
           (case Object_assign originalOptions merged h1 of
              (Inl e, h2) \<Rightarrow> (Inl e, h2)
            | (Inr options, h2) \<Rightarrow>
                (Inr \<lparr>c_initFn = initFn, c_renderFn = renderFn, c_options = options,
                      c_displayName = getp h2 options ''displayName''\<rparr>, h2))))"

section \<open>The document, the window and the trace of effects\<close>

text \<open>
  The drawing surface is a DOM element. Of an element the adapter touches its attributes,
  its rendered size (what d3's \<^verbatim>\<open>selection.style(name)\<close> reads: the inline or computed
  style, a string chosen by the browser) and whether it still hangs in the document.
  Attribute values are kept as the JavaScript values that were written; the adapter reads
  back only the \<^verbatim>\<open>id\<close>.
\<close>

type_synonym node = nat

record dnode =
  attached :: bool
  attrs :: "(string \<times> jsval) list"
  styles :: "(string \<times> string) list"

text \<open>
  The only event handler of the adapter is the closure \<^verbatim>\<open>resize\<close> of
  \<^verbatim>\<open>makeResponsiveSVG\<close>; it captures the selection \<^verbatim>\<open>svg\<close>. A selection made by
  \<^verbatim>\<open>select(x)\<close> holds one node, or none when \<^verbatim>\<open>x\<close> is \<^verbatim>\<open>null\<close> or
  \<^verbatim>\<open>undefined\<close>.
\<close>

type_synonym selection = "node option"

datatype handler = Resize selection

text \<open>
  The caller's two callbacks are opaque: a call is recorded in the trace with the closure
  variable that was called (\<^verbatim>\<open>initFn\<close> or \<^verbatim>\<open>renderFn\<close>) and its three arguments,
  and returns normally. The trace also records the other effects whose order
  matters: the \<^verbatim>\<open>ref\<close> callback binding the node, a registration on the window, and
  the dispatch of a window event to a registered listener.
\<close>

datatype callee = InitFn | RenderFn

datatype effect =
    Ref "node option"
  | Call callee "node option" jsval addr
  | Register string
  | Dispatch "string \<times> string" handler

record world =
  heap :: heap
  dom :: "dnode list"
  window_on :: "((string \<times> string) \<times> handler) list"
  trace :: "effect list"

definition emit :: "effect \<Rightarrow> world \<Rightarrow> world" where
  "emit e w = w\<lparr>trace := trace w @ [e]\<rparr>"

subsection \<open>Strings and numbers\<close>

definition is_ws :: "char \<Rightarrow> bool" where
  \<comment> \<open>white space of \<^verbatim>\<open>trim\<close>, \<^verbatim>\<open>\s\<close> and \<^verbatim>\<open>parseInt\<close> among the 8-bit characters\<close>
  "is_ws c = (c \<in> set [CHR 0x09, CHR 0x0A, CHR 0x0B, CHR 0x0C, CHR 0x0D, CHR 0x20, CHR 0xA0])"

definition digit_val :: "char \<Rightarrow> nat" where
  \<comment> \<open>the value of a digit in radix up to 36; 36 for any other character\<close>
  "digit_val c =
     (let n = of_char c :: nat in
      if 48 \<le> n \<and> n \<le> 57 then n - 48
      else if 97 \<le> n \<and> n \<le> 122 then n - 87
      else if 65 \<le> n \<and> n \<le> 90 then n - 55
      else 36)"

datatype jsnum = NaN | Fin int | PosInf | NegInf

definition parseInt :: "string \<Rightarrow> jsnum" where
  \<comment> \<open>\<^verbatim>\<open>parseInt(string, 0)\<close>: leading white space, a sign, a \<^verbatim>\<open>0x\<close> prefix choosing
      radix 16 (radix 10 otherwise), then the longest run of digits; the number is the
      double nearest to the integer the digits denote (engines round correctly; the
      standard allows less beyond 20 significant digits), and NaN without a digit\<close>
  "parseInt str =
     (let s0 = dropWhile is_ws str;
          neg = (s0 \<noteq> [] \<and> hd s0 = CHR ''-'');
          s1 = (if s0 \<noteq> [] \<and> (hd s0 = CHR ''+'' \<or> hd s0 = CHR ''-'') then tl s0 else s0);
          hex = (take 2 s1 = ''0x'' \<or> take 2 s1 = ''0X'');
          r = (if hex then 16 else 10);
          s2 = (if hex then drop 2 s1 else s1);
          z = takeWhile (\<lambda>c. digit_val c < r) s2;
          m = foldl (\<lambda>acc c. acc * r + digit_val c) 0 z
      in if z = [] then NaN
         else (case round_double m of
                 None \<Rightarrow> (if neg then NegInf else PosInf)
               | Some x \<Rightarrow> Fin (if neg then - int x else int x)))"

definition show_num :: "jsnum \<Rightarrow> string" where
  \<comment> \<open>a number inside a template literal; minus zero prints as \<^verbatim>\<open>0\<close>\<close>
  "show_num x =
     (case x of
        NaN \<Rightarrow> ''NaN''
      | Fin i \<Rightarrow> show_int i
      | PosInf \<Rightarrow> ''Infinity''
      | NegInf \<Rightarrow> ''-Infinity'')"

definition to_string :: "jsval \<Rightarrow> string" where
  \<comment> \<open>a value inside a template literal; an object without its own \<^verbatim>\<open>toString\<close>\<close>
  "to_string v =
     (case v of
        VUndefined \<Rightarrow> ''undefined''
      | VNull \<Rightarrow> ''null''
      | VBool b \<Rightarrow> (if b then ''true'' else ''false'')
      | VNum i \<Rightarrow> show_int i
      | VStr s \<Rightarrow> s
      | VRef a \<Rightarrow> ''[object Object]'')"

definition truthy :: "jsval \<Rightarrow> bool" where
  "truthy v =
     (case v of
        VUndefined \<Rightarrow> False
      | VNull \<Rightarrow> False
      | VBool b \<Rightarrow> b
      | VNum i \<Rightarrow> i \<noteq> 0
      | VStr s \<Rightarrow> s \<noteq> []
      | VRef a \<Rightarrow> True)"

subsection \<open>d3-selection\<close>

definition node_at :: "world \<Rightarrow> node \<Rightarrow> dnode" where
  \<comment> \<open>as for \<open>obj_at\<close>, the second branch only makes the function total\<close>
  "node_at w n =
     (if n < length (dom w) then dom w ! n else \<lparr>attached = False, attrs = [], styles = []\<rparr>)"

definition sel_style :: "selection \<Rightarrow> string \<Rightarrow> world \<Rightarrow> error + string" where
  \<comment> \<open>\<^verbatim>\<open>selection.style(name)\<close>: the style value of the node, the empty string when the
      property is unset; an empty selection has no node to read and the read throws\<close>
  "sel_style sel name w =
     (case sel of
        None \<Rightarrow> Inl TypeError
      | Some n \<Rightarrow> Inr (case map_of (styles (node_at w n)) name of None \<Rightarrow> [] | Some s \<Rightarrow> s))"

definition sel_attr_get :: "selection \<Rightarrow> string \<Rightarrow> world \<Rightarrow> error + jsval" where
  \<comment> \<open>\<^verbatim>\<open>selection.attr(name)\<close>: \<^verbatim>\<open>null\<close> for a missing attribute\<close>
  "sel_attr_get sel name w =
     (case sel of
        None \<Rightarrow> Inl TypeError
      | Some n \<Rightarrow> Inr (case map_of (attrs (node_at w n)) name of None \<Rightarrow> VNull | Some v \<Rightarrow> v))"

definition sel_attr :: "selection \<Rightarrow> string \<Rightarrow> jsval \<Rightarrow> world \<Rightarrow> world" where
  \<comment> \<open>\<^verbatim>\<open>selection.attr(name, value)\<close>: sets the attribute on each node of the selection\<close>
  "sel_attr sel name v w =
     (case sel of
        None \<Rightarrow> w
      | Some n \<Rightarrow>
          w\<lparr>dom := (dom w)[n := (node_at w n)\<lparr>attrs := AList.update name v (attrs (node_at w n))\<rparr>]\<rparr>)"

definition sel_remove :: "selection \<Rightarrow> world \<Rightarrow> world" where
  \<comment> \<open>\<^verbatim>\<open>selection.remove()\<close>: detaches each node of the selection from its parent\<close>
  "sel_remove sel w =
     (case sel of
        None \<Rightarrow> w
      | Some n \<Rightarrow> w\<lparr>dom := (dom w)[n := (node_at w n)\<lparr>attached := False\<rparr>]\<rparr>)"

fun words_from :: "string \<Rightarrow> string \<Rightarrow> string list" where
  "words_from cur [] = (if cur = [] then [] else [cur])"
| "words_from cur (c # cs) =
     (if is_ws c then (if cur = [] then words_from [] cs else cur # words_from [] cs)
      else words_from (cur @ [c]) cs)"

definition parseTypenames :: "string \<Rightarrow> (string \<times> string) list" where
  \<comment> \<open>\<^verbatim>\<open>typenames.trim().split(/^|\s+/)\<close>, each word cut at its first dot into the
      event type and the name\<close>
  "parseTypenames typenames =
     map (\<lambda>t. (takeWhile (\<lambda>c. c \<noteq> CHR ''.'') t, drop 1 (dropWhile (\<lambda>c. c \<noteq> CHR ''.'') t)))
       (words_from [] typenames)"

definition onAdd :: "string \<times> string \<Rightarrow> handler \<Rightarrow> world \<Rightarrow> world" where
  \<comment> \<open>a listener registered under the same type and name is removed, then the new one is
      added; the table is kept in the order in which the window will call the listeners\<close>
  "onAdd key value w = w\<lparr>window_on := filter (\<lambda>(k, _). k \<noteq> key) (window_on w) @ [(key, value)]\<rparr>"

definition window_on_add :: "string \<Rightarrow> handler \<Rightarrow> world \<Rightarrow> world" where
  \<comment> \<open>\<^verbatim>\<open>select(window).on(typenames, value)\<close> with a function as the value\<close>
  "window_on_add typenames value w =
     foldl (\<lambda>w' key. onAdd key value w') (emit (Register typenames) w) (parseTypenames typenames)"

definition resize :: "selection \<Rightarrow> world \<Rightarrow> world" where
  \<comment> \<open>the body of the closure \<^verbatim>\<open>resize\<close>, lines 102--106\<close>
  "resize svg w = sel_attr svg ''height'' (VStr ''100%'') (sel_attr svg ''width'' (VStr ''100%'') w)"

fun run_handler :: "handler \<Rightarrow> world \<Rightarrow> world" where
  "run_handler (Resize svg) w = resize svg w"

definition fire :: "string \<Rightarrow> world \<Rightarrow> world" where
  \<comment> \<open>the window dispatches an event of the given type: every listener registered for
      that type is called, in order\<close>
  "fire type w =
     foldl (\<lambda>w' (key, value). run_handler value (emit (Dispatch key value) w')) w
       (filter (\<lambda>(key, _). fst key = type) (window_on w))"

section \<open>The component class\<close>

record props =
  p_data :: jsval
  p_className :: jsval

record container =
  i_props :: props
  i_width :: jsval
  i_height :: jsval
  i_options :: addr
  i_id :: string
  i_node :: "node option"
  i_state_data :: jsval

definition defaultProps :: "props \<Rightarrow> props" where
  \<comment> \<open>the host fills in \<^verbatim>\<open>static defaultProps\<close> for a prop that is \<^verbatim>\<open>undefined\<close>\<close>
  "defaultProps p = (if p_className p = VUndefined then p\<lparr>p_className := VStr ''d3Conduit''\<rparr> else p)"

definition constructor :: "component \<Rightarrow> props \<Rightarrow> string \<Rightarrow> world \<Rightarrow> container" where
  \<comment> \<open>lines 55--68; the third argument is the id that \<^verbatim>\<open>generate()\<close> returns\<close>
  "constructor C p new_id w =
     \<lparr>i_props = p,
      i_width = getp (heap w) (c_options C) ''width'',
      i_height = getp (heap w) (c_options C) ''height'',
      i_options = c_options C,
      i_id = new_id,
      i_node = None,
      i_state_data = p_data p\<rparr>"

definition shouldComponentUpdate :: "container \<Rightarrow> bool" where
  "shouldComponentUpdate this = False"

definition makeResponsiveSVG :: "selection \<Rightarrow> world \<Rightarrow> error + world" where
  "makeResponsiveSVG svg w =
     (case sel_style svg ''width'' w of
        Inl e \<Rightarrow> Inl e
      | Inr sw \<Rightarrow>
     (case sel_style svg ''height'' w of
        Inl e \<Rightarrow> Inl e
      | Inr sh \<Rightarrow>
     (let width = parseInt sw;
          height = parseInt sh;
          w1 = sel_attr svg ''viewBox''
                 (VStr (''0 0 '' @ show_num width @ '' '' @ show_num height)) w;
          w2 = sel_attr svg ''preserveAspectRatio'' (VStr ''xMinYMid'') w1;
          w3 = resize svg w2
      in case sel_attr_get svg ''id'' w3 of
           Inl e \<Rightarrow> Inl e
         | Inr ident \<Rightarrow> Inr (window_on_add (''resize.'' @ to_string ident) (Resize svg) w3))))"

definition componentDidMount :: "component \<Rightarrow> container \<Rightarrow> world \<Rightarrow> error + world" where
  "componentDidMount C this w =
     (let w1 = emit (Call InitFn (i_node this) (i_state_data this) (c_options C)) w;
          w2 = emit (Call RenderFn (i_node this) (i_state_data this) (c_options C)) w1
      in makeResponsiveSVG (i_node this) w2)"

definition componentWillReceiveProps ::
    "component \<Rightarrow> props \<Rightarrow> container \<Rightarrow> world \<Rightarrow> container \<times> world" where
  \<comment> \<open>\<^verbatim>\<open>setState({ data }, callback)\<close>: the state is replaced, then the callback runs
      (the host calls it once the update is processed, also when the component refuses
      to render again)\<close>
  "componentWillReceiveProps C nextProps this w =
     (let this' = this\<lparr>i_state_data := p_data nextProps\<rparr>
      in (this', emit (Call RenderFn (i_node this') (i_state_data this') (c_options C)) w))"

definition componentWillUnmount :: "container \<Rightarrow> world \<Rightarrow> world" where
  "componentWillUnmount this w = sel_remove (i_node this) w"

text \<open>
  \<^verbatim>\<open>render\<close> describes one \<^verbatim>\<open>svg\<close> element inside a \<^verbatim>\<open>div\<close>; the props of the
  \<^verbatim>\<open>svg\<close> are its result here, and the \<^verbatim>\<open>ref\<close> callback is \<open>ref\<close> below.
\<close>

record svg_props =
  sp_className :: jsval
  sp_width :: jsval
  sp_height :: jsval
  sp_id :: string

definition render :: "container \<Rightarrow> svg_props" where
  "render this =
     \<lparr>sp_className = (if truthy (p_className (i_props this)) then p_className (i_props this) else VNull),
      sp_width = i_width this,
      sp_height = i_height this,
      sp_id = i_id this\<rparr>"

definition ref :: "node option \<Rightarrow> container \<Rightarrow> container" where
  "ref nd this = this\<lparr>i_node := nd\<rparr>"

section \<open>The host framework\<close>

text \<open>
  React is not part of the repository. Its contract with a class component, as far as the
  adapter relies on it: an instance is constructed, rendered and mounted once; on mount
  the host creates the element that \<^verbatim>\<open>render\<close> describes, hands it to the \<^verbatim>\<open>ref\<close>
  callback and then calls \<^verbatim>\<open>componentDidMount\<close>; while the instance is mounted, every
  delivery of props calls \<^verbatim>\<open>componentWillReceiveProps\<close>, and the host renders again
  only if \<^verbatim>\<open>shouldComponentUpdate\<close> says so; on unmount it calls
  \<^verbatim>\<open>componentWillUnmount\<close> and then the \<^verbatim>\<open>ref\<close> callback with \<^verbatim>\<open>null\<close>. The
  window may fire \<^verbatim>\<open>resize\<close> at any time. The rendered size of the new element is
  the browser's choice and comes with the mount event.
\<close>

datatype phase = Unmounted | Mounted | Removed

record state =
  phase :: phase
  this :: container
  renders :: nat
  world :: world

datatype event = Mount "(string \<times> string) list" | Props props | Unmount | WindowResize

definition create_svg :: "svg_props \<Rightarrow> (string \<times> string) list \<Rightarrow> world \<Rightarrow> node \<times> world" where
  \<comment> \<open>the host creates the element with the rendered props as attributes (a \<^verbatim>\<open>null\<close>
      class is left out) and appends it to its parent\<close>
  "create_svg sp st w =
     (length (dom w),
      w\<lparr>dom := dom w @
          [\<lparr>attached = True,
            attrs = (if sp_className sp = VNull then [] else [(''class'', sp_className sp)]) @
                    [(''width'', sp_width sp), (''height'', sp_height sp), (''id'', VStr (sp_id sp))],
            styles = st\<rparr>]\<rparr>)"

definition start :: "component \<Rightarrow> props \<Rightarrow> string \<Rightarrow> world \<Rightarrow> state" where
  "start C p new_id w =
     \<lparr>phase = Unmounted, this = constructor C (defaultProps p) new_id w, renders = 0, world = w\<rparr>"

definition mount :: "component \<Rightarrow> (string \<times> string) list \<Rightarrow> state \<Rightarrow> error + state" where
  "mount C st s =
     (case create_svg (render (this s)) st (world s) of (n, w1) \<Rightarrow>
        (let this1 = ref (Some n) (this s);
             w2 = emit (Ref (Some n)) w1
         in case componentDidMount C this1 w2 of
              Inl e \<Rightarrow> Inl e
            | Inr w3 \<Rightarrow> Inr \<lparr>phase = Mounted, this = this1, renders = renders s + 1, world = w3\<rparr>))"

definition deliver :: "component \<Rightarrow> props \<Rightarrow> state \<Rightarrow> state" where
  "deliver C p s =
     (case componentWillReceiveProps C (defaultProps p) (this s) (world s) of (this1, w1) \<Rightarrow>
        s\<lparr>this := this1\<lparr>i_props := defaultProps p\<rparr>,
          renders := (if shouldComponentUpdate this1 then renders s + 1 else renders s),
          world := w1\<rparr>)"

definition unmount :: "state \<Rightarrow> state" where
  "unmount s =
     (let w1 = componentWillUnmount (this s) (world s)
      in s\<lparr>phase := Removed, this := ref None (this s), world := emit (Ref None) w1\<rparr>)"

fun step :: "component \<Rightarrow> event \<Rightarrow> state \<Rightarrow> error + state" where
  "step C (Mount st) s = (if phase s = Unmounted then mount C st s else Inr s)"
| "step C (Props p) s = (if phase s = Mounted then Inr (deliver C p s) else Inr s)"
| "step C Unmount s = (if phase s = Mounted then Inr (unmount s) else Inr s)"
| "step C WindowResize s = Inr (s\<lparr>world := fire ''resize'' (world s)\<rparr>)"

fun run :: "component \<Rightarrow> event list \<Rightarrow> state \<Rightarrow> error + state" where
  "run C [] s = Inr s"
| "run C (e # es) s = (case step C e s of Inl err \<Rightarrow> Inl err | Inr s' \<Rightarrow> run C es s')"

section \<open>The resolved options, as the specification describes them\<close>

text \<open>
  The specification (4.1) asks for a recursive fill-if-absent merge: every field the caller
  supplied keeps its value, at every nesting level, and every field the caller left out
  takes the default. \<open>spec_resolved h a b k\<close> is the value this prescribes for property
  \<open>k\<close> of object \<open>b\<close> once the options object \<open>a\<close> of heap \<open>h\<close> is resolved; a
  property counts as supplied when it does not read as \<^verbatim>\<open>undefined\<close>. The two levels
  of the defaults are the dimensions and the four sides of the margin; a margin the
  caller left out is a new object, the next address of the heap.
\<close>

definition dims :: "(string \<times> int) list" where
  "dims = [(''width'', 900), (''height'', 500)]"

definition sides :: "(string \<times> int) list" where
  "sides = [(''top'', 120), (''right'', 50), (''bottom'', 150), (''left'', 150)]"

definition filled :: "heap \<Rightarrow> addr \<Rightarrow> string \<Rightarrow> int \<Rightarrow> jsval" where
  "filled h b k n = (if getp h b k = VUndefined then VNum n else getp h b k)"

definition spec_resolved :: "heap \<Rightarrow> addr \<Rightarrow> addr \<Rightarrow> string \<Rightarrow> jsval" where
  "spec_resolved h a b k =
     (case (if b = a then map_of dims k else None) of
        Some n \<Rightarrow> filled h a k n
      | None \<Rightarrow>
          (case getp h a ''margin'' of
             VRef m \<Rightarrow>
               (case (if b = m then map_of sides k else None) of
                  Some n \<Rightarrow> filled h m k n
                | None \<Rightarrow> getp h b k)
           | VUndefined \<Rightarrow>
               (if b = a \<and> k = ''margin'' then VRef (length h)
                else if b = length h
                  then (case map_of sides k of Some n \<Rightarrow> VNum n | None \<Rightarrow> VUndefined)
                else getp h b k)
           | _ \<Rightarrow> getp h b k))"

abbreviation nums :: "(string \<times> int) list \<Rightarrow> (string \<times> dflt) list" where
  "nums kns \<equiv> map (\<lambda>(k, n). (k, DNum n)) kns"

definition named :: "string \<Rightarrow> bool" where
  \<comment> \<open>a key with a character that is not a decimal digit: not a character index\<close>
  "named k = (\<exists>c \<in> set k. \<not> digit_val c < 10)"

text \<open>
  The example of the specification (section 8): the two callbacks at addresses 0 and 1,
  the caller's options \<^verbatim>\<open>{width: 400, margin: {top: 10}}\<close> at address 2, their margin
  object at address 3.
\<close>

definition example_heap :: heap where
  "example_heap =
     [fun_obj, fun_obj,
      plain_obj [(''width'', VNum 400), (''margin'', VRef 3)],
      plain_obj [(''top'', VNum 10)]]"

section \<open>Reading the trace\<close>

definition calls :: "effect list \<Rightarrow> effect list" where
  \<comment> \<open>the calls of the two callbacks, in order\<close>
  "calls tr = filter (\<lambda>e. case e of Call _ _ _ _ \<Rightarrow> True | _ \<Rightarrow> False) tr"

definition core :: "effect list \<Rightarrow> effect list" where
  \<comment> \<open>the effects of the instance itself: the trace without the window's dispatches\<close>
  "core tr = filter (\<lambda>e. case e of Dispatch _ _ \<Rightarrow> False | _ \<Rightarrow> True) tr"

fun delivered :: "event list \<Rightarrow> jsval list" where
  \<comment> \<open>the data of the props delivered before the instance is unmounted\<close>
  "delivered [] = []"
| "delivered (Props p # es) = p_data p # delivered es"
| "delivered (Unmount # es) = []"
| "delivered (Mount st # es) = delivered es"
| "delivered (WindowResize # es) = delivered es"

definition rendered_size :: "(string \<times> string) list \<Rightarrow> string \<Rightarrow> string" where
  \<comment> \<open>what \<^verbatim>\<open>selection.style(name)\<close> reads on an element with the given styles\<close>
  "rendered_size st name = (case map_of st name of None \<Rightarrow> [] | Some s \<Rightarrow> s)"

definition sized :: "string \<Rightarrow> string \<Rightarrow> (string \<times> jsval) list \<Rightarrow> (string \<times> jsval) list" where
  \<comment> \<open>the attributes of an element after \<^verbatim>\<open>makeResponsiveSVG\<close> read the two sizes\<close>
  "sized sw sh ats =
     AList.update ''height'' (VStr ''100%'')
       (AList.update ''width'' (VStr ''100%'')
         (AList.update ''preserveAspectRatio'' (VStr ''xMinYMid'')
           (AList.update ''viewBox''
             (VStr (''0 0 '' @ show_num (parseInt sw) @ '' '' @ show_num (parseInt sh))) ats)))"

text \<open>
  The component that the factory returns on \<open>example_heap\<close>, and a world with the heap
  the factory leaves, an empty document and no listener on the window.
\<close>

definition example_component :: component where
  "example_component =
     \<lparr>c_initFn = VRef 0, c_renderFn = VRef 1, c_options = 2, c_displayName = VUndefined\<rparr>"

definition example_world :: world where
  "example_world =
     \<lparr>heap = snd (d3Conduit (VRef 0) (VRef 1) (VRef 2) example_heap),
      dom = [], window_on = [], trace = []\<rparr>"

definition calls_of :: "error + state \<Rightarrow> effect list" where
  \<comment> \<open>the callback calls in the trace a run ends with; none when the run fails\<close>
  "calls_of r = (case r of Inl e \<Rightarrow> [] | Inr s \<Rightarrow> calls (trace (world s)))"

definition unsized :: "string \<Rightarrow> bool" where
  \<comment> \<open>a rendered size that is unset or zero: after white space and a sign no decimal
      digit follows (the empty string, \<^verbatim>\<open>auto\<close>), or the digits that follow are all
      \<^verbatim>\<open>0\<close> (\<^verbatim>\<open>0px\<close>, \<^verbatim>\<open>0\<close>); not a hexadecimal numeral\<close>
  "unsized s =
     (let s0 = dropWhile is_ws s;
          s1 = (if s0 \<noteq> [] \<and> (hd s0 = CHR ''+'' \<or> hd s0 = CHR ''-'') then tl s0 else s0)
      in take 2 s1 \<noteq> ''0x'' \<and> take 2 s1 \<noteq> ''0X'' \<and>
         (\<forall>c \<in> set (takeWhile (\<lambda>c. digit_val c < 10) s1). c = CHR ''0''))"

section \<open>The factory's errors\<close>

lemma setp_error: "setp h a k v = (Inl e, h') \<Longrightarrow> e = TypeError"
  by (auto simp: setp_def split: if_splits)

lemma assign_keys_error: "assign_keys to from ks h = (Inl e, h') \<Longrightarrow> e = TypeError"
proof (induction ks arbitrary: h)
  case Nil
  then show ?case by simp
next
  case (Cons k ks)
  then show ?case
    by (auto split: prod.splits sum.splits dest: setp_error)
qed

lemma ToObject_error: "ToObject v h = (Inl e, h') \<Longrightarrow> e = TypeError"
  by (auto simp: ToObject_def split: jsval.splits prod.splits)

lemma Object_assign_error: "Object_assign t s h = (Inl e, h') \<Longrightarrow> e = TypeError"
  unfolding Object_assign_def
  by (auto split: prod.splits sum.splits jsval.splits dest: ToObject_error assign_keys_error)

lemma d3Conduit_TypeError:
  "is_function h initFn \<Longrightarrow> is_function h renderFn \<Longrightarrow>
   fst (d3Conduit initFn renderFn originalOptions h) = Inl e \<Longrightarrow> e = TypeError"
  unfolding d3Conduit_def
  by (auto split: prod.splits sum.splits dest: Object_assign_error)

text \<open>
  Claim C10. The two callbacks are validated before the options are merged, the
  initialise function first. A call that fails with a configuration error (an
  \<^verbatim>\<open>Error\<close> with one of the two messages) therefore leaves the heap, and with it the
  caller's options object, as it was; when both callbacks are not functions the error is
  the one for the initialise function; and a configuration error is raised only when one
  of the callbacks is not a function.
\<close>

theorem config_error_is_atomic:
  "(\<not> is_function h initFn \<longrightarrow>
      d3Conduit initFn renderFn originalOptions h =
        (Inl (Error ''must provide an initialise function''), h)) \<and>
   (is_function h initFn \<and> \<not> is_function h renderFn \<longrightarrow>
      d3Conduit initFn renderFn originalOptions h =
        (Inl (Error ''must provide a render function''), h)) \<and>
   (\<forall>msg. fst (d3Conduit initFn renderFn originalOptions h) = Inl (Error msg) \<longrightarrow>
      snd (d3Conduit initFn renderFn originalOptions h) = h \<and>
      (\<not> is_function h initFn \<or> \<not> is_function h renderFn))"
proof (intro conjI allI impI)
  fix msg
  assume e: "fst (d3Conduit initFn renderFn originalOptions h) = Inl (Error msg)"
  have bad: "\<not> (is_function h initFn \<and> is_function h renderFn)"
    using d3Conduit_TypeError [of h initFn renderFn originalOptions "Error msg"] e by auto
  then show "snd (d3Conduit initFn renderFn originalOptions h) = h"
    by (auto simp: d3Conduit_def)
  from bad show "\<not> is_function h initFn \<or> \<not> is_function h renderFn" by simp
qed (simp_all add: d3Conduit_def)

theorem config_error_is_atomic_witness:
  "d3Conduit (VNum 1) VNull (VRef 0) [plain_obj [(''width'', VNum 400)]] =
     (Inl (Error ''must provide an initialise function''), [plain_obj [(''width'', VNum 400)]]) \<and>
   d3Conduit (VRef 0) VNull (VRef 1) [fun_obj, plain_obj [(''width'', VNum 400)]] =
     (Inl (Error ''must provide a render function''), [fun_obj, plain_obj [(''width'', VNum 400)]])"
  using config_error_is_atomic [of "[plain_obj [(''width'', VNum 400)]]" "VNum 1" VNull "VRef 0"]
    config_error_is_atomic [of "[fun_obj, plain_obj [(''width'', VNum 400)]]" "VRef 0" VNull "VRef 1"]
  by (simp add: is_function_def obj_at_def plain_obj_def fun_obj_def)

text \<open>
  Claim C2. With two functions as callbacks and the options argument left out
  (\<^verbatim>\<open>d3Conduit(initFn, renderFn)\<close>, so that \<^verbatim>\<open>originalOptions\<close> is
  \<^verbatim>\<open>undefined\<close>), the factory does not return a component: \<^verbatim>\<open>defaultsDeep\<close> accepts
  the missing object, but \<^verbatim>\<open>Object.assign\<close> is given \<^verbatim>\<open>undefined\<close> as its target
  and throws a TypeError.
\<close>

theorem omitted_options_throw:
  "is_function [fun_obj, fun_obj] (VRef 0) \<and>
   is_function [fun_obj, fun_obj] (VRef 1) \<and>
   fst (defaultsDeep VUndefined default_options [fun_obj, fun_obj]) = VRef 2 \<and>
   fst (Object_assign VUndefined (VRef 2)
          (snd (defaultsDeep VUndefined default_options [fun_obj, fun_obj]))) = Inl TypeError \<and>
   fst (d3Conduit (VRef 0) (VRef 1) VUndefined [fun_obj, fun_obj]) = Inl TypeError"
  by (simp add: d3Conduit_def is_function_def obj_at_def fun_obj_def defaultsDeep_def
      js_Object_def alloc_def Object_assign_def ToObject_def split: prod.splits)

section \<open>The heap under the merge\<close>

lemma digit_val_char_of: "m < 10 \<Longrightarrow> digit_val (char_of (48 + m)) = m"
  by (simp add: digit_val_def Let_def)

lemma dec_digits: "c \<in> set (dec n) \<Longrightarrow> digit_val c < 10"
proof (induction n rule: dec.induct)
  case (1 n)
  show ?case
  proof (cases "n < 10")
    case True
    with "1.prems" have "c = char_of (48 + n)" by (simp add: dec.simps [of n])
    with True show ?thesis by (simp add: digit_val_char_of)
  next
    case False
    with "1.prems" have "c \<in> set (dec (n div 10)) \<or> c = char_of (48 + n mod 10)"
      by (auto simp: dec.simps [of n])
    then show ?thesis
    proof
      assume "c \<in> set (dec (n div 10))"
      with "1.IH" False show ?thesis by simp
    next
      assume "c = char_of (48 + n mod 10)"
      moreover have "n mod 10 < 10" by simp
      ultimately show ?thesis by (simp only: digit_val_char_of)
    qed
  qed
qed

lemma named_not_readonly: "named k \<Longrightarrow> \<not> readonly ob k"
  by (auto simp: readonly_def named_def index_keys_def dest: dec_digits split: option.splits jsval.splits)

lemma named_keys:
  "named ''width''" "named ''height''" "named ''margin''"
  "named ''top''" "named ''right''" "named ''bottom''" "named ''left''"
  by (simp_all add: named_def digit_val_def)

lemma length_putp [simp]: "length (putp h a k v) = length h"
  by (simp add: putp_def)

lemma obj_at_putp_other: "b \<noteq> a \<Longrightarrow> obj_at (putp h a k v) b = obj_at h b"
  by (simp add: putp_def obj_at_def)

lemma wrapped_putp [simp]: "wrapped (obj_at (putp h a k v) b) = wrapped (obj_at h b)"
  by (simp add: putp_def obj_at_def nth_list_update)

lemma readonly_putp [simp]: "readonly (obj_at (putp h a k v) b) k' = readonly (obj_at h b) k'"
  by (simp add: readonly_def)

lemma getp_putp_other: "b \<noteq> a \<or> k' \<noteq> k \<Longrightarrow> getp (putp h a k v) b k' = getp h b k'"
  by (auto simp: getp_def putp_def obj_at_def update_conv' nth_list_update)

lemma getp_putp_same:
  "a < length h \<Longrightarrow> \<not> readonly (obj_at h a) k \<Longrightarrow> getp (putp h a k v) a k = v"
  by (simp add: getp_def putp_def obj_at_def update_conv')

lemma getp_dangling: "length h \<le> b \<Longrightarrow> getp h b k = VUndefined"
  by (simp add: getp_def obj_at_def plain_obj_def)

lemma getp_append: "b < length h \<Longrightarrow> getp (h @ obs) b k = getp h b k"
  by (simp add: getp_def obj_at_def nth_append)

lemma obj_at_append: "b < length h \<Longrightarrow> obj_at (h @ obs) b = obj_at h b"
  by (simp add: obj_at_def nth_append)

lemma getp_fresh: "getp (h @ [plain_obj []]) (length h) k = VUndefined"
  by (simp add: getp_def obj_at_def plain_obj_def)

lemma length_baseMerge: "length h \<le> length (baseMerge a src h)"
proof (induction a src h rule: baseMerge.induct)
  case (1 a h)
  show ?case by simp
next
  case (2 a k n src h)
  then show ?case by (simp split: if_splits)
next
  case (3 a k sub src h)
  show ?case
  proof (cases "getp h a k")
    case VUndefined
    with 3 show ?thesis by (fastforce simp: alloc_def)
  next
    case (VRef c)
    with 3 show ?thesis by fastforce
  qed (use 3 in simp_all)
qed

text \<open>A property that is defined before the merge keeps its value, on every object.\<close>

lemma baseMerge_keeps:
  "getp h b k' \<noteq> VUndefined \<Longrightarrow> getp (baseMerge a src h) b k' = getp h b k'"
proof (induction a src h rule: baseMerge.induct)
  case (1 a h)
  show ?case by simp
next
  case (2 a k n src h)
  let ?h1 = "if getp h a k = VUndefined then putp h a k (VNum n) else h"
  have "getp ?h1 b k' = getp h b k'"
  proof (cases "getp h a k = VUndefined")
    case True
    with "2.prems" have "b \<noteq> a \<or> k' \<noteq> k" by auto
    with True show ?thesis by (simp add: getp_putp_other)
  qed simp
  with 2 show ?case by simp
next
  case (3 a k sub src h)
  let ?h1 = "case getp h a k of
       VUndefined \<Rightarrow>
         (case alloc (plain_obj []) h of (c, h1) \<Rightarrow> putp (baseMerge c sub h1) a k (VRef c))
       | VRef c \<Rightarrow> baseMerge c sub h | _ \<Rightarrow> h"
  have b: "b < length h"
    using "3.prems" getp_dangling [of h b k'] by (cases "b < length h") auto
  have "getp ?h1 b k' = getp h b k'"
  proof (cases "getp h a k")
    case VUndefined
    have neq: "b \<noteq> a \<or> k' \<noteq> k" using VUndefined "3.prems" by auto
    have "getp (baseMerge (length h) sub (h @ [plain_obj []])) b k' = getp (h @ [plain_obj []]) b k'"
      using "3.IH"(1) [OF VUndefined, of "length h" "h @ [plain_obj []]"] "3.prems" b
      by (simp add: alloc_def getp_append)
    then show ?thesis
      using VUndefined neq b by (simp add: alloc_def getp_putp_other getp_append)
  next
    case (VRef c)
    then show ?thesis using "3.IH"(2) "3.prems" by simp
  qed simp_all
  with 3 show ?case by simp
qed

lemma baseMerge_flat:
  assumes "a < length h" and "\<forall>k \<in> fst ` set kns. named k"
  shows "length (baseMerge a (map (\<lambda>(k, n). (k, DNum n)) kns) h) = length h \<and>
         getp (baseMerge a (map (\<lambda>(k, n). (k, DNum n)) kns) h) b k' =
           (if b = a \<and> getp h a k' = VUndefined
            then (case map_of kns k' of Some n \<Rightarrow> VNum n | None \<Rightarrow> VUndefined)
            else getp h b k')"
  using assms
proof (induction kns arbitrary: h)
  case Nil
  then show ?case by simp
next
  case (Cons kn kns)
  obtain k n where kn: "kn = (k, n)" by (cases kn)
  let ?h1 = "if getp h a k = VUndefined then putp h a k (VNum n) else h"
  have nk: "named k" using Cons.prems kn by simp
  have len: "length ?h1 = length h" by simp
  have get1: "getp ?h1 c k'' = (if c = a \<and> k'' = k \<and> getp h a k = VUndefined then VNum n else getp h c k'')" for c k''
    using Cons.prems(1) nk
    by (auto simp: getp_putp_same getp_putp_other named_not_readonly)
  have IH: "length (baseMerge a (map (\<lambda>(k, n). (k, DNum n)) kns) ?h1) = length ?h1 \<and>
         getp (baseMerge a (map (\<lambda>(k, n). (k, DNum n)) kns) ?h1) b k' =
           (if b = a \<and> getp ?h1 a k' = VUndefined
            then (case map_of kns k' of Some n \<Rightarrow> VNum n | None \<Rightarrow> VUndefined)
            else getp ?h1 b k')"
    using Cons.IH [of ?h1] Cons.prems len by simp
  show ?case
    using IH unfolding get1 kn by auto
qed

lemma baseMerge_append: "baseMerge a (xs @ ys) h = baseMerge a ys (baseMerge a xs h)"
proof (induction xs arbitrary: h)
  case Nil
  show ?case by simp
next
  case (Cons x xs)
  obtain k d where x: "x = (k, d)" by (cases x)
  show ?case by (cases d) (simp_all add: x Cons.IH)
qed

lemma default_options_split:
  "default_options = nums dims @ [(''margin'', DObj (nums sides))]"
  by (simp add: default_options_def dims_def sides_def)

lemma named_dims: "\<forall>k \<in> fst ` set dims. named k"
  by (simp add: dims_def named_keys)

lemma named_sides: "\<forall>k \<in> fst ` set sides. named k"
  by (simp add: sides_def named_keys)

lemma dims_get:
  assumes "a < length h"
  shows "getp (baseMerge a (nums dims) h) b k =
           (case (if b = a then map_of dims k else None) of
              Some n \<Rightarrow> filled h a k n | None \<Rightarrow> getp h b k)"
    and "length (baseMerge a (nums dims) h) = length h"
  using baseMerge_flat [OF assms named_dims, of b k]
  by (auto simp: filled_def split: option.splits)

lemma sides_get:
  assumes "m < length h"
  shows "getp (baseMerge m (nums sides) h) b k =
           (case (if b = m then map_of sides k else None) of
              Some n \<Rightarrow> filled h m k n | None \<Rightarrow> getp h b k)"
    and "length (baseMerge m (nums sides) h) = length h"
  using baseMerge_flat [OF assms named_sides, of b k]
  by (auto simp: filled_def split: option.splits)

lemma dims_sides_disjoint: "map_of dims k = Some n \<Longrightarrow> map_of sides k = None"
  by (auto simp: dims_def sides_def split: if_splits)

lemma margin_not_dim: "map_of dims ''margin'' = None" "map_of sides ''margin'' = None"
  by (simp_all add: dims_def sides_def)

lemma baseMerge_default_options:
  assumes a: "a < length h" and wf: "\<And>m. getp h a ''margin'' = VRef m \<Longrightarrow> m < length h"
  shows "getp (baseMerge a default_options h) b k = spec_resolved h a b k"
proof -
  let ?h2 = "baseMerge a (nums dims) h"
  have len: "length ?h2 = length h" using dims_get(2) [OF a] .
  have g2: "getp ?h2 c k' =
           (case (if c = a then map_of dims k' else None) of
              Some n \<Rightarrow> filled h a k' n | None \<Rightarrow> getp h c k')" for c k'
    using dims_get(1) [OF a] .
  have mg: "getp ?h2 a ''margin'' = getp h a ''margin''"
    by (simp add: g2 margin_not_dim)
  have other: ?thesis
    if nr: "\<And>m. getp h a ''margin'' \<noteq> VRef m" "getp h a ''margin'' \<noteq> VUndefined"
  proof -
    have res: "baseMerge a default_options h = ?h2"
      unfolding default_options_split baseMerge_append
      using mg nr by (cases "getp h a ''margin''") auto
    have sp: "spec_resolved h a b k =
        (case (if b = a then map_of dims k else None) of
           Some n \<Rightarrow> filled h a k n | None \<Rightarrow> getp h b k)"
      unfolding spec_resolved_def
      using nr by (cases "getp h a ''margin''") (auto split: option.splits)
    show ?thesis unfolding res sp g2 ..
  qed
  show ?thesis
  proof (cases "getp h a ''margin''")
    case (VRef m)
    have m2: "m < length ?h2" using wf [OF VRef] len by simp
    have res: "baseMerge a default_options h = baseMerge m (nums sides) ?h2"
      using VRef mg by (simp add: default_options_split baseMerge_append)
    have "getp (baseMerge m (nums sides) ?h2) b k =
           (case (if b = m then map_of sides k else None) of
              Some n \<Rightarrow> (if getp ?h2 m k = VUndefined then VNum n else getp ?h2 m k)
            | None \<Rightarrow> getp ?h2 b k)"
      using sides_get(1) [OF m2, of b k] by (simp add: filled_def split: option.splits)
    also have "\<dots> = spec_resolved h a b k"
      unfolding g2 spec_resolved_def VRef
      by (auto simp: filled_def dest: dims_sides_disjoint split: option.splits)
    finally show ?thesis by (simp only: res)
  next
    case VUndefined
    let ?h3 = "baseMerge (length h) (nums sides) (?h2 @ [plain_obj []])"
    have res: "baseMerge a default_options h = putp ?h3 a ''margin'' (VRef (length h))"
      using VUndefined mg by (simp add: default_options_split baseMerge_append alloc_def len)
    have n: "length h < length (?h2 @ [plain_obj []])" using len by simp
    have len3: "length ?h3 = Suc (length h)" using sides_get(2) [OF n] len by simp
    have fresh: "getp (?h2 @ [plain_obj []]) (length h) k' = VUndefined" for k'
      using getp_fresh [of ?h2 k'] len by simp
    have old: "c < length h \<Longrightarrow> getp (?h2 @ [plain_obj []]) c k' = getp ?h2 c k'" for c k'
      using len by (simp add: getp_append)
    have beyond: "length h < c \<Longrightarrow> getp (?h2 @ [plain_obj []]) c k' = VUndefined" for c k'
      using len by (simp add: getp_dangling)
    have beyond': "length h < c \<Longrightarrow> getp h c k' = VUndefined" for c k'
      by (simp add: getp_dangling)
    have s: "getp ?h3 c k' =
           (case (if c = length h then map_of sides k' else None) of
              Some n \<Rightarrow> VNum n | None \<Rightarrow> getp (?h2 @ [plain_obj []]) c k')" for c k'
      unfolding sides_get(1) [OF n] by (auto simp: filled_def fresh split: option.splits)
    have a3: "a < length ?h3" using len3 a by simp
    have put: "getp (putp ?h3 a ''margin'' v) c k' =
        (if c = a \<and> k' = ''margin'' then v else getp ?h3 c k')" for v c k'
      using a3 by (auto simp: getp_putp_same getp_putp_other named_not_readonly named_keys)
    have ext: "getp (?h2 @ [plain_obj []]) c k' =
        (if c < length h then getp ?h2 c k' else VUndefined)" for c k'
      using old [of c k'] fresh [of k'] beyond [of c k'] by (cases "c = length h") auto
    have "getp (baseMerge a default_options h) b k =
        (if b = a \<and> k = ''margin'' then VRef (length h)
         else case (if b = length h then map_of sides k else None) of
                Some n \<Rightarrow> VNum n
              | None \<Rightarrow> (if b < length h then getp ?h2 b k else VUndefined))"
      unfolding res put s ext ..
    also have "\<dots> = spec_resolved h a b k"
      unfolding g2 spec_resolved_def VUndefined
      using a by (auto simp: margin_not_dim getp_dangling split: option.splits)
    finally show ?thesis .
  qed (simp_all add: other)
qed

lemma putp_same_value:
  assumes "a < length h" and "k \<in> fst ` set (props (obj_at h a))"
  shows "putp h a k (getp h a k) = h"
proof -
  from assms(2) obtain v where v: "map_of (props (obj_at h a)) k = Some v"
    by (metis domD dom_map_of_conv_image_fst)
  then have "AList.update k (getp h a k) (props (obj_at h a)) = props (obj_at h a)"
    by (simp add: getp_def update_triv)
  then show ?thesis
    using assms(1) by (simp add: putp_def obj_at_def)
qed

lemma assign_keys_self:
  assumes "a < length h" and "\<forall>k \<in> set ks. \<not> readonly (obj_at h a) k"
    and "set ks \<subseteq> fst ` set (props (obj_at h a))"
  shows "assign_keys a a ks h = (Inr (), h)"
  using assms
proof (induction ks)
  case Nil
  show ?case by simp
next
  case (Cons k ks)
  have "setp h a k (getp h a k) = (Inr (), h)"
    using Cons.prems by (simp add: setp_def putp_same_value)
  with Cons show ?case by simp
qed

lemma wrapped_baseMerge:
  "b < length h \<Longrightarrow> wrapped (obj_at (baseMerge a src h) b) = wrapped (obj_at h b)"
proof (induction a src h rule: baseMerge.induct)
  case (1 a h)
  show ?case by simp
next
  case (2 a k n src h)
  then show ?case by (simp split: if_splits)
next
  case (3 a k sub src h)
  let ?h1 = "case getp h a k of
       VUndefined \<Rightarrow>
         (case alloc (plain_obj []) h of (c, h1) \<Rightarrow> putp (baseMerge c sub h1) a k (VRef c))
       | VRef c \<Rightarrow> baseMerge c sub h | _ \<Rightarrow> h"
  have l: "length h \<le> length ?h1"
    using length_baseMerge [of h a "[(k, DObj sub)]"] by simp
  have "wrapped (obj_at ?h1 b) = wrapped (obj_at h b)"
  proof (cases "getp h a k")
    case VUndefined
    have "wrapped (obj_at (baseMerge (length h) sub (h @ [plain_obj []])) b) =
          wrapped (obj_at (h @ [plain_obj []]) b)"
      using "3.IH"(1) [OF VUndefined, of "length h" "h @ [plain_obj []]"] "3.prems"
      by (simp add: alloc_def)
    then show ?thesis
      using VUndefined "3.prems" by (simp add: alloc_def obj_at_append)
  next
    case (VRef c)
    then show ?thesis using "3.IH"(2) "3.prems" by simp
  qed simp_all
  moreover have "wrapped (obj_at (baseMerge a src ?h1) b) = wrapped (obj_at ?h1 b)"
    using "3.IH"(3) "3.prems" l by simp
  ultimately show ?case by simp
qed

lemma d3Conduit_object:
  assumes "is_function h initFn" and "is_function h renderFn"
    and "a < length h" and "wrapped (obj_at h a) = None"
  shows "d3Conduit initFn renderFn (VRef a) h =
           (Inr \<lparr>c_initFn = initFn, c_renderFn = renderFn, c_options = a,
                 c_displayName = getp (baseMerge a default_options h) a ''displayName''\<rparr>,
            baseMerge a default_options h)"
proof -
  let ?h1 = "baseMerge a default_options h"
  have a1: "a < length ?h1"
    using assms(3) length_baseMerge [of h a default_options] by simp
  have "wrapped (obj_at ?h1 a) = None"
    using wrapped_baseMerge [OF assms(3)] assms(4) by simp
  then have ro: "\<forall>k \<in> set (map fst (props (obj_at ?h1 a))). \<not> readonly (obj_at ?h1 a) k"
    by (simp add: readonly_def)
  have "assign_keys a a (map fst (props (obj_at ?h1 a))) ?h1 = (Inr (), ?h1)"
    using assign_keys_self [OF a1 ro] by simp
  then have "Object_assign (VRef a) (VRef a) ?h1 = (Inr a, ?h1)"
    by (simp add: Object_assign_def ToObject_def js_Object_def)
  then show ?thesis
    using assms(1,2) by (simp add: d3Conduit_def defaultsDeep_def js_Object_def)
qed

lemma resolve_dims:
  assumes "a < length h"
  shows "getp (baseMerge a default_options h) a ''width'' = filled h a ''width'' 900"
    and "getp (baseMerge a default_options h) a ''height'' = filled h a ''height'' 500"
proof -
  let ?h2 = "baseMerge a (nums dims) h"
  have w: "getp ?h2 a ''width'' = filled h a ''width'' 900"
    and hh: "getp ?h2 a ''height'' = filled h a ''height'' 500"
    using dims_get(1) [OF assms] by (simp_all add: dims_def)
  have "filled h a ''width'' 900 \<noteq> VUndefined" "filled h a ''height'' 500 \<noteq> VUndefined"
    by (simp_all add: filled_def)
  with w hh have "getp ?h2 a ''width'' \<noteq> VUndefined" "getp ?h2 a ''height'' \<noteq> VUndefined"
    by simp_all
  then have "getp (baseMerge a ys ?h2) a ''width'' = getp ?h2 a ''width''"
    "getp (baseMerge a ys ?h2) a ''height'' = getp ?h2 a ''height''" for ys
    by (simp_all add: baseMerge_keeps)
  then have "getp (baseMerge a default_options h) a ''width'' = getp ?h2 a ''width''"
    "getp (baseMerge a default_options h) a ''height'' = getp ?h2 a ''height''"
    by (simp_all only: default_options_split baseMerge_append)
  with w hh show "getp (baseMerge a default_options h) a ''width'' = filled h a ''width'' 900"
    and "getp (baseMerge a default_options h) a ''height'' = filled h a ''height'' 500"
    by simp_all
qed

section \<open>Options resolution\<close>

lemma example_resolved:
  "d3Conduit (VRef 0) (VRef 1) (VRef 2) example_heap =
     (Inr \<lparr>c_initFn = VRef 0, c_renderFn = VRef 1, c_options = 2, c_displayName = VUndefined\<rparr>,
      [fun_obj, fun_obj,
       plain_obj [(''width'', VNum 400), (''margin'', VRef 3), (''height'', VNum 500)],
       plain_obj [(''top'', VNum 10), (''right'', VNum 50), (''bottom'', VNum 150),
                  (''left'', VNum 150)]])"
proof -
  have m: "baseMerge 2 default_options example_heap =
      [fun_obj, fun_obj,
       plain_obj [(''width'', VNum 400), (''margin'', VRef 3), (''height'', VNum 500)],
       plain_obj [(''top'', VNum 10), (''right'', VNum 50), (''bottom'', VNum 150),
                  (''left'', VNum 150)]]"
    by (simp add: default_options_def example_heap_def getp_def putp_def obj_at_def
        plain_obj_def fun_obj_def readonly_def)
  have "d3Conduit (VRef 0) (VRef 1) (VRef 2) example_heap =
     (Inr \<lparr>c_initFn = VRef 0, c_renderFn = VRef 1, c_options = 2,
           c_displayName = getp (baseMerge 2 default_options example_heap) 2 ''displayName''\<rparr>,
      baseMerge 2 default_options example_heap)"
    by (rule d3Conduit_object)
      (simp_all add: example_heap_def is_function_def obj_at_def fun_obj_def plain_obj_def)
  then show ?thesis
    unfolding m by (simp add: getp_def obj_at_def plain_obj_def)
qed

text \<open>
  Claim C4. The example of the specification resolves as stated: with the callbacks and
  the caller's \<^verbatim>\<open>{width: 400, margin: {top: 10}}\<close> of \<open>example_heap\<close>, the resolved
  options are the object at address 2 and read \<^verbatim>\<open>{width: 400, height: 500, margin:
  {top: 10, right: 50, bottom: 150, left: 150}}\<close>, with no other property. In general,
  for two functions as callbacks and an ordinary object as options (whose margin, when it
  is an object, exists in the heap), the factory returns a component whose options are the
  caller's object; no property that was supplied (that did not read as \<^verbatim>\<open>undefined\<close>)
  changes its value, on any object and so at every nesting level; and every property of
  every object reads as the recursive merge \<open>spec_resolved\<close> prescribes.
\<close>

theorem options_resolution:
  assumes "is_function h initFn" and "is_function h renderFn"
    and "a < length h" and "wrapped (obj_at h a) = None"
    and "\<forall>m. getp h a ''margin'' = VRef m \<longrightarrow> m < length h"
  shows "(\<exists>C h'. d3Conduit (VRef 0) (VRef 1) (VRef 2) example_heap = (Inr C, h') \<and>
            c_options C = 2 \<and>
            (\<forall>k. getp h' 2 k =
               (if k = ''width'' then VNum 400 else if k = ''height'' then VNum 500
                else if k = ''margin'' then VRef 3 else VUndefined)) \<and>
            (\<forall>k. getp h' 3 k =
               (if k = ''top'' then VNum 10 else if k = ''right'' then VNum 50
                else if k = ''bottom'' then VNum 150 else if k = ''left'' then VNum 150
                else VUndefined))) \<and>
         (\<exists>C h'. d3Conduit initFn renderFn (VRef a) h = (Inr C, h') \<and>
            c_options C = a \<and>
            (\<forall>b k. getp h b k \<noteq> VUndefined \<longrightarrow> getp h' b k = getp h b k) \<and>
            (\<forall>b k. getp h' b k = spec_resolved h a b k))"
proof (rule conjI)
  show "\<exists>C h'. d3Conduit (VRef 0) (VRef 1) (VRef 2) example_heap = (Inr C, h') \<and>
            c_options C = 2 \<and>
            (\<forall>k. getp h' 2 k =
               (if k = ''width'' then VNum 400 else if k = ''height'' then VNum 500
                else if k = ''margin'' then VRef 3 else VUndefined)) \<and>
            (\<forall>k. getp h' 3 k =
               (if k = ''top'' then VNum 10 else if k = ''right'' then VNum 50
                else if k = ''bottom'' then VNum 150 else if k = ''left'' then VNum 150
                else VUndefined))"
    unfolding example_resolved
    by (simp add: getp_def obj_at_def plain_obj_def)
next
  have "\<forall>b k. getp (baseMerge a default_options h) b k = spec_resolved h a b k"
    using baseMerge_default_options [OF assms(3)] assms(5) by simp
  moreover have "\<forall>b k. getp h b k \<noteq> VUndefined \<longrightarrow>
      getp (baseMerge a default_options h) b k = getp h b k"
    by (simp add: baseMerge_keeps)
  ultimately show "\<exists>C h'. d3Conduit initFn renderFn (VRef a) h = (Inr C, h') \<and>
            c_options C = a \<and>
            (\<forall>b k. getp h b k \<noteq> VUndefined \<longrightarrow> getp h' b k = getp h b k) \<and>
            (\<forall>b k. getp h' b k = spec_resolved h a b k)"
    unfolding d3Conduit_object [OF assms(1-4)] by simp
qed

theorem options_resolution_witness:
  "\<exists>C h'. d3Conduit (VRef 0) (VRef 1) (VRef 2)
        [fun_obj, fun_obj, plain_obj [(''height'', VNum 7), (''margin'', VRef 3)],
         plain_obj [(''left'', VNum 1)]] = (Inr C, h') \<and>
      c_options C = 2 \<and>
      getp h' 2 ''width'' = VNum 900 \<and> getp h' 2 ''height'' = VNum 7 \<and>
      getp h' 2 ''margin'' = VRef 3 \<and>
      getp h' 3 ''left'' = VNum 1 \<and> getp h' 3 ''top'' = VNum 120"
proof -
  let ?h = "[fun_obj, fun_obj, plain_obj [(''height'', VNum 7), (''margin'', VRef 3)],
         plain_obj [(''left'', VNum 1)]]"
  have f: "is_function ?h (VRef 0)" "is_function ?h (VRef 1)"
    by (simp_all add: is_function_def obj_at_def fun_obj_def)
  have a: "2 < length ?h" "wrapped (obj_at ?h 2) = None"
    by (simp_all add: obj_at_def plain_obj_def)
  have m: "\<forall>m. getp ?h 2 ''margin'' = VRef m \<longrightarrow> m < length ?h"
    by (simp add: getp_def obj_at_def plain_obj_def)
  have r: "spec_resolved ?h 2 2 ''width'' = VNum 900" "spec_resolved ?h 2 2 ''height'' = VNum 7"
    "spec_resolved ?h 2 2 ''margin'' = VRef 3"
    "spec_resolved ?h 2 3 ''left'' = VNum 1" "spec_resolved ?h 2 3 ''top'' = VNum 120"
    by (simp_all add: spec_resolved_def filled_def dims_def sides_def getp_def obj_at_def
        plain_obj_def)
  from options_resolution [OF f a m] obtain C h'
    where "d3Conduit (VRef 0) (VRef 1) (VRef 2) ?h = (Inr C, h')" "c_options C = 2"
      "\<forall>b k. getp h' b k = spec_resolved ?h 2 b k"
    by blast
  with r show ?thesis by simp
qed

section \<open>What the lifecycle leaves unchanged\<close>

lemma emit_fields [simp]:
  "heap (emit e w) = heap w" "dom (emit e w) = dom w"
  "window_on (emit e w) = window_on w" "trace (emit e w) = trace w @ [e]"
  by (simp_all add: emit_def)

lemma node_at_emit [simp]: "node_at (emit e w) n = node_at w n"
  by (simp add: node_at_def)

lemma sel_attr_fields [simp]:
  "heap (sel_attr sel name v w) = heap w" "window_on (sel_attr sel name v w) = window_on w"
  "trace (sel_attr sel name v w) = trace w" "length (dom (sel_attr sel name v w)) = length (dom w)"
  by (simp_all add: sel_attr_def split: option.splits)

lemma sel_remove_fields [simp]:
  "heap (sel_remove sel w) = heap w" "window_on (sel_remove sel w) = window_on w"
  "trace (sel_remove sel w) = trace w" "length (dom (sel_remove sel w)) = length (dom w)"
  by (simp_all add: sel_remove_def split: option.splits)

lemma resize_fields [simp]:
  "heap (resize svg w) = heap w" "window_on (resize svg w) = window_on w"
  "trace (resize svg w) = trace w" "length (dom (resize svg w)) = length (dom w)"
  by (simp_all add: resize_def)

lemma run_handler_fields [simp]:
  "heap (run_handler hn w) = heap w" "window_on (run_handler hn w) = window_on w"
  "trace (run_handler hn w) = trace w" "length (dom (run_handler hn w)) = length (dom w)"
  by (cases hn; simp)+

lemma onAdd_fields [simp]:
  "heap (onAdd key v w) = heap w" "dom (onAdd key v w) = dom w"
  "trace (onAdd key v w) = trace w"
  by (simp_all add: onAdd_def)

lemma foldl_onAdd_fields [simp]:
  "heap (foldl (\<lambda>w' key. onAdd key v w') w ks) = heap w"
  "dom (foldl (\<lambda>w' key. onAdd key v w') w ks) = dom w"
  "trace (foldl (\<lambda>w' key. onAdd key v w') w ks) = trace w"
  by (induction ks arbitrary: w) simp_all

lemma window_on_add_fields [simp]:
  "heap (window_on_add t v w) = heap w" "dom (window_on_add t v w) = dom w"
  "trace (window_on_add t v w) = trace w @ [Register t]"
  by (simp_all add: window_on_add_def)

lemma dispatch_fields:
  "heap (foldl (\<lambda>w' (key, value). run_handler value (emit (Dispatch key value) w')) w ls) = heap w"
  "window_on (foldl (\<lambda>w' (key, value). run_handler value (emit (Dispatch key value) w')) w ls) =
     window_on w"
  "trace (foldl (\<lambda>w' (key, value). run_handler value (emit (Dispatch key value) w')) w ls) =
     trace w @ map (\<lambda>(key, value). Dispatch key value) ls"
  "length (dom (foldl (\<lambda>w' (key, value). run_handler value (emit (Dispatch key value) w')) w ls)) =
     length (dom w)"
  by (induction ls arbitrary: w) (simp_all split: prod.splits)

lemma fire_fields [simp]:
  "heap (fire type w) = heap w" "window_on (fire type w) = window_on w"
  "trace (fire type w) =
     trace w @ map (\<lambda>(key, value). Dispatch key value) (filter (\<lambda>(key, _). fst key = type) (window_on w))"
  "length (dom (fire type w)) = length (dom w)"
  by (simp_all add: fire_def dispatch_fields)

lemma makeResponsiveSVG_None [simp]: "makeResponsiveSVG None w = Inl TypeError"
  by (simp add: makeResponsiveSVG_def sel_style_def)

lemma makeResponsiveSVG_fields:
  assumes "makeResponsiveSVG svg w = Inr w'"
  shows "heap w' = heap w" "length (dom w') = length (dom w)"
  using assms
  by (auto simp: makeResponsiveSVG_def Let_def split: sum.splits)

lemma step_heap: "step C e s = Inr s' \<Longrightarrow> heap (world s') = heap (world s)"
proof (cases e)
  case (Mount st)
  assume "step C e s = Inr s'"
  with Mount show ?thesis
    by (auto simp: mount_def create_svg_def componentDidMount_def Let_def
        split: if_splits sum.splits dest!: makeResponsiveSVG_fields(1))
next
  case (Props p)
  assume "step C e s = Inr s'"
  with Props show ?thesis
    by (auto simp: deliver_def componentWillReceiveProps_def Let_def split: if_splits)
next
  case Unmount
  assume "step C e s = Inr s'"
  with Unmount show ?thesis
    by (auto simp: unmount_def componentWillUnmount_def Let_def split: if_splits)
next
  case WindowResize
  assume "step C e s = Inr s'"
  with WindowResize show ?thesis by auto
qed

section \<open>The resolver works in place\<close>

text \<open>
  Claim C5, as stated, fails: the Options Resolver is not pure. On the example of the
  specification the caller's options object (address 2) is not the same after the
  factory call: the missing \<^verbatim>\<open>height\<close> has been written into it.
\<close>

theorem resolver_writes_to_argument:
  "obj_at (snd (d3Conduit (VRef 0) (VRef 1) (VRef 2) example_heap)) 2 \<noteq> obj_at example_heap 2"
  unfolding example_resolved
  by (simp add: example_heap_def obj_at_def plain_obj_def)

text \<open>
  Claim C5, amended. The resolver works in place. For two functions as callbacks and an
  ordinary object as options, the factory succeeds and the resolved options are the
  caller's object itself (the same address), in a heap where no property that was
  defined has changed (the writes only fill properties that read as \<^verbatim>\<open>undefined\<close>);
  its width and height are the caller's where defined and the defaults otherwise; every
  instance of the returned component holds that same address as its options; and no
  lifecycle transition of the adapter writes to the heap.
\<close>

theorem resolver_in_place:
  assumes "is_function h initFn" and "is_function h renderFn"
    and "a < length h" and "wrapped (obj_at h a) = None"
  shows "\<exists>C h'. d3Conduit initFn renderFn (VRef a) h = (Inr C, h') \<and>
           c_options C = a \<and>
           getp h' a ''width'' = filled h a ''width'' 900 \<and>
           getp h' a ''height'' = filled h a ''height'' 500 \<and>
           (\<forall>b k. getp h b k \<noteq> VUndefined \<longrightarrow> getp h' b k = getp h b k) \<and>
           (\<forall>p i w. i_options (constructor C p i w) = a) \<and>
           (\<forall>e s s'. step C e s = Inr s' \<longrightarrow> heap (world s') = heap (world s))"
proof -
  have "\<forall>b k. getp h b k \<noteq> VUndefined \<longrightarrow>
      getp (baseMerge a default_options h) b k = getp h b k"
    by (simp add: baseMerge_keeps)
  moreover have "\<forall>e s s'. step C e s = Inr s' \<longrightarrow> heap (world s') = heap (world s)" for C
    by (blast intro: step_heap)
  ultimately show ?thesis
    unfolding d3Conduit_object [OF assms]
    by (simp add: constructor_def resolve_dims [OF assms(3)])
qed

theorem resolver_in_place_witness:
  "\<exists>C h'. d3Conduit (VRef 0) (VRef 1) (VRef 2) example_heap = (Inr C, h') \<and>
      c_options C = 2 \<and> getp h' 2 ''width'' = VNum 400 \<and> getp h' 3 ''top'' = VNum 10 \<and>
      i_options (constructor C \<lparr>p_data = VNull, p_className = VUndefined\<rparr> ''a''
        \<lparr>heap = h', dom = [], window_on = [], trace = []\<rparr>) = 2"
proof -
  have f: "is_function example_heap (VRef 0)" "is_function example_heap (VRef 1)"
    by (simp_all add: example_heap_def is_function_def obj_at_def fun_obj_def)
  have a: "2 < length example_heap" "wrapped (obj_at example_heap 2) = None"
    by (simp_all add: example_heap_def obj_at_def plain_obj_def)
  have g: "getp example_heap 2 ''width'' = VNum 400" "getp example_heap 3 ''top'' = VNum 10"
    by (simp_all add: example_heap_def getp_def obj_at_def plain_obj_def)
  from resolver_in_place [OF f a] obtain C h'
    where r: "d3Conduit (VRef 0) (VRef 1) (VRef 2) example_heap = (Inr C, h')" "c_options C = 2"
      "\<forall>b k. getp example_heap b k \<noteq> VUndefined \<longrightarrow> getp h' b k = getp example_heap b k"
      "\<forall>p i w. i_options (constructor C p i w) = 2"
    by blast
  from r(3) g have "getp h' 2 ''width'' = VNum 400" "getp h' 3 ''top'' = VNum 10"
    by simp_all
  with r show ?thesis by simp
qed

section \<open>Sizes as numbers\<close>

lemma digit_chars:
  "char_of (48::nat) = CHR ''0''" "char_of (49::nat) = CHR ''1''" "char_of (50::nat) = CHR ''2''"
  "char_of (51::nat) = CHR ''3''" "char_of (52::nat) = CHR ''4''" "char_of (53::nat) = CHR ''5''"
  "char_of (54::nat) = CHR ''6''" "char_of (55::nat) = CHR ''7''" "char_of (56::nat) = CHR ''8''"
  "char_of (57::nat) = CHR ''9''"
  by code_simp+

lemmas eval_num = parseInt_def Let_def is_ws_def digit_val_def round_double_def bitlen.simps
  show_num_def show_int_def show_double_def shortest.simps dec.simps digit_chars

text \<open>
  Sizes are parsed and printed as doubles: exact up to \<open>2 ^ 53\<close>, rounded beyond, with
  an exponent from \<open>10 ^ 21\<close> on.
\<close>

lemma sizes_are_doubles:
  "show_num (parseInt ''400px'') = ''400''"
  "show_num (parseInt ''500px'') = ''500''"
  "show_num (parseInt ''9007199254740993px'') = ''9007199254740992''"
  "show_num (parseInt ''1000000000000000000000px'') = ''1e+21''"
  "show_num (parseInt ''1152921504606846976px'') = ''1152921504606847000''"
  by (simp_all add: eval_num)

lemma foldl_zeros:
  "\<forall>c \<in> set z. c = CHR ''0'' \<Longrightarrow> foldl (\<lambda>acc c. acc * 10 + digit_val c) 0 z = 0"
proof (induction z rule: rev_induct)
  case Nil
  show ?case by simp
next
  case (snoc c z)
  then have "digit_val c = 0" by (simp add: digit_val_def)
  with snoc show ?case by simp
qed

lemma round_double_0: "round_double 0 = Some 0"
  by (simp add: round_double_def bitlen.simps)

lemma show_num_degenerate: "show_num NaN = ''NaN''" "show_num (Fin 0) = ''0''"
  by (simp_all add: eval_num)

lemma parseInt_unsized:
  assumes "unsized s"
  shows "parseInt s = NaN \<or> parseInt s = Fin 0"
proof -
  define s0 where "s0 = dropWhile is_ws s"
  define s1 where "s1 = (if s0 \<noteq> [] \<and> (hd s0 = CHR ''+'' \<or> hd s0 = CHR ''-'') then tl s0 else s0)"
  define z where "z = takeWhile (\<lambda>c. digit_val c < 10) s1"
  have nohex: "\<not> (take 2 s1 = ''0x'' \<or> take 2 s1 = ''0X'')"
    and zeros: "\<forall>c \<in> set z. c = CHR ''0''"
    using assms unfolding unsized_def Let_def s0_def s1_def z_def by blast+
  have p: "parseInt s =
      (if z = [] then NaN
       else (case round_double (foldl (\<lambda>acc c. acc * 10 + digit_val c) 0 z) of
               None \<Rightarrow> (if s0 \<noteq> [] \<and> hd s0 = CHR ''-'' then NegInf else PosInf)
             | Some x \<Rightarrow> Fin (if s0 \<noteq> [] \<and> hd s0 = CHR ''-'' then - int x else int x)))"
    using nohex by (simp add: parseInt_def Let_def s0_def [symmetric] s1_def [symmetric] z_def [symmetric])
  show ?thesis
    unfolding p by (simp add: foldl_zeros [OF zeros] round_double_0)
qed

lemma show_unsized:
  "unsized s \<Longrightarrow> show_num (parseInt s) = ''NaN'' \<or> show_num (parseInt s) = ''0''"
  using parseInt_unsized [of s] show_num_degenerate by auto

section \<open>The Responsive Sizer and the mount transition\<close>

lemma words_from_no_ws:
  "\<forall>c \<in> set s. \<not> is_ws c \<Longrightarrow> words_from cur s = (if cur @ s = [] then [] else [cur @ s])"
  by (induction s arbitrary: cur) auto

lemma parseTypenames_resize:
  assumes "\<forall>c \<in> set i. \<not> is_ws c"
  shows "parseTypenames (''resize.'' @ i) = [(''resize'', i)]"
proof -
  have "\<forall>c \<in> set (''resize.'' @ i). \<not> is_ws c"
    using assms by (simp add: is_ws_def)
  then have "words_from [] (''resize.'' @ i) = [''resize.'' @ i]"
    by (simp only: words_from_no_ws) simp
  then show ?thesis by (simp add: parseTypenames_def)
qed

lemma window_on_add_resize:
  assumes "\<forall>c \<in> set i. \<not> is_ws c"
  shows "window_on (window_on_add (''resize.'' @ i) v w) =
           filter (\<lambda>(k, _). k \<noteq> (''resize'', i)) (window_on w) @ [((''resize'', i), v)]"
  unfolding window_on_add_def parseTypenames_resize [OF assms]
  by (simp add: onAdd_def)

lemma node_at_sel_attr:
  "node_at (sel_attr (Some n) name v w) m =
     (if m = n \<and> n < length (dom w)
      then (node_at w n)\<lparr>attrs := AList.update name v (attrs (node_at w n))\<rparr>
      else node_at w m)"
  by (auto simp: node_at_def sel_attr_def nth_list_update)

lemma node_at_resize:
  "node_at (resize (Some n) w) m =
     (if m = n \<and> n < length (dom w)
      then (node_at w n)\<lparr>attrs := AList.update ''height'' (VStr ''100%'')
             (AList.update ''width'' (VStr ''100%'') (attrs (node_at w n)))\<rparr>
      else node_at w m)"
  by (simp add: resize_def node_at_sel_attr)

lemma node_at_onAdd [simp]: "node_at (onAdd key v w) m = node_at w m"
  by (simp add: node_at_def)

lemma node_at_window_on_add [simp]: "node_at (window_on_add t v w) m = node_at w m"
  by (simp add: node_at_def)

lemma window_on_foldl_onAdd:
  "window_on (foldl (\<lambda>w' key. onAdd key v w') w ks) =
     foldl (\<lambda>tbl key. filter (\<lambda>(k, _). k \<noteq> key) tbl @ [(key, v)]) (window_on w) ks"
  by (induction ks arbitrary: w) (simp_all add: onAdd_def)

lemma window_on_add_cong:
  "window_on w1 = window_on w2 \<Longrightarrow>
   window_on (window_on_add t v w1) = window_on (window_on_add t v w2)"
  by (simp add: window_on_add_def window_on_foldl_onAdd)

lemma makeResponsiveSVG_Some:
  assumes "n < length (dom w)"
    and "sel_style (Some n) ''width'' w = Inr sw" and "sel_style (Some n) ''height'' w = Inr sh"
  shows "\<exists>w'. makeResponsiveSVG (Some n) w = Inr w' \<and>
          heap w' = heap w \<and> length (dom w') = length (dom w) \<and>
          (\<forall>m. node_at w' m =
             (if m = n then (node_at w n)\<lparr>attrs := sized sw sh (attrs (node_at w n))\<rparr>
              else node_at w m)) \<and>
          trace w' = trace w @ [Register (''resize.'' @
             to_string (case map_of (attrs (node_at w n)) ''id'' of None \<Rightarrow> VNull | Some v \<Rightarrow> v))] \<and>
          window_on w' = window_on (window_on_add (''resize.'' @
             to_string (case map_of (attrs (node_at w n)) ''id'' of None \<Rightarrow> VNull | Some v \<Rightarrow> v))
             (Resize (Some n)) w)"
proof -
  let ?t = "''resize.'' @
     to_string (case map_of (attrs (node_at w n)) ''id'' of None \<Rightarrow> VNull | Some v \<Rightarrow> v)"
  let ?w3 = "resize (Some n)
     (sel_attr (Some n) ''preserveAspectRatio'' (VStr ''xMinYMid'')
       (sel_attr (Some n) ''viewBox''
         (VStr (''0 0 '' @ show_num (parseInt sw) @ '' '' @ show_num (parseInt sh))) w))"
  have n3: "\<forall>m. node_at ?w3 m =
      (if m = n then (node_at w n)\<lparr>attrs := sized sw sh (attrs (node_at w n))\<rparr>
       else node_at w m)"
    using assms(1) by (simp add: node_at_sel_attr node_at_resize sized_def)
  have idv: "map_of (attrs (node_at ?w3 n)) ''id'' = map_of (attrs (node_at w n)) ''id''"
    using n3 by (simp add: sized_def update_conv')
  have m: "makeResponsiveSVG (Some n) w = Inr (window_on_add ?t (Resize (Some n)) ?w3)"
    using assms(2,3) idv
    by (simp add: makeResponsiveSVG_def Let_def sel_attr_get_def del: append.simps)
  have "window_on (window_on_add ?t (Resize (Some n)) ?w3) =
        window_on (window_on_add ?t (Resize (Some n)) w)"
    by (rule window_on_add_cong) simp
  with n3 show ?thesis
    unfolding m by simp
qed

lemma calls_simps [simp]:
  "calls [] = []"
  "calls (Ref nd # tr) = calls tr"
  "calls (Call f nd d ob # tr) = Call f nd d ob # calls tr"
  "calls (Register t # tr) = calls tr"
  "calls (Dispatch key hn # tr) = calls tr"
  by (simp_all add: calls_def)

lemma calls_append [simp]: "calls (xs @ ys) = calls xs @ calls ys"
  by (simp add: calls_def)

lemma core_append [simp]: "core (xs @ ys) = core xs @ core ys"
  by (simp add: core_def)

lemma calls_core [simp]: "calls (core tr) = calls tr"
  by (induction tr) (auto simp: calls_def core_def split: effect.splits)

lemma core_dispatches [simp]: "core (map (\<lambda>(key, value). Dispatch key value) ls) = []"
  by (induction ls) (auto simp: core_def)

lemma calls_renders [simp]: "calls (map (\<lambda>d. Call f nd d ob) ds) = map (\<lambda>d. Call f nd d ob) ds"
  by (induction ds) (simp_all add: calls_def)

lemma core_renders [simp]: "core (map (\<lambda>d. Call f nd d ob) ds) = map (\<lambda>d. Call f nd d ob) ds"
  by (induction ds) (simp_all add: core_def)

lemma p_data_defaultProps [simp]: "p_data (defaultProps p) = p_data p"
  by (simp add: defaultProps_def)

lemma mount_result:
  fixes s :: state
  defines "n \<equiv> length (dom (world s))"
  shows "\<exists>s'. mount C st s = Inr s' \<and> phase s' = Mounted \<and>
           this s' = (this s)\<lparr>i_node := Some n\<rparr> \<and> renders s' = renders s + 1 \<and>
           heap (world s') = heap (world s) \<and>
           length (dom (world s')) = Suc n \<and>
           (\<forall>m. m \<noteq> n \<longrightarrow> node_at (world s') m = node_at (world s) m) \<and>
           attached (node_at (world s') n) \<and> styles (node_at (world s') n) = st \<and>
           map_of (attrs (node_at (world s') n)) ''id'' = Some (VStr (i_id (this s))) \<and>
           map_of (attrs (node_at (world s') n)) ''viewBox'' =
             Some (VStr (''0 0 '' @ show_num (parseInt (rendered_size st ''width'')) @ '' '' @
                         show_num (parseInt (rendered_size st ''height'')))) \<and>
           map_of (attrs (node_at (world s') n)) ''preserveAspectRatio'' = Some (VStr ''xMinYMid'') \<and>
           map_of (attrs (node_at (world s') n)) ''width'' = Some (VStr ''100%'') \<and>
           map_of (attrs (node_at (world s') n)) ''height'' = Some (VStr ''100%'') \<and>
           trace (world s') = trace (world s) @
             [Ref (Some n),
              Call InitFn (Some n) (i_state_data (this s)) (c_options C),
              Call RenderFn (Some n) (i_state_data (this s)) (c_options C),
              Register (''resize.'' @ i_id (this s))] \<and>
           window_on (world s') =
             window_on (window_on_add (''resize.'' @ i_id (this s)) (Resize (Some n)) (world s))"
proof -
  define ats where "ats =
     (if sp_className (render (this s)) = VNull then []
      else [(''class'', sp_className (render (this s)))]) @
     [(''width'', sp_width (render (this s))), (''height'', sp_height (render (this s))),
      (''id'', VStr (sp_id (render (this s))))]"
  define nd where "nd = \<lparr>attached = True, attrs = ats, styles = st\<rparr>"
  define w2 where "w2 =
     emit (Call RenderFn (Some n) (i_state_data (this s)) (c_options C))
      (emit (Call InitFn (Some n) (i_state_data (this s)) (c_options C))
        (emit (Ref (Some n)) ((world s)\<lparr>dom := dom (world s) @ [nd]\<rparr>)))"
  have nd: "node_at w2 n = nd" "\<And>m. m \<noteq> n \<Longrightarrow> node_at w2 m = node_at (world s) m"
    by (auto simp: w2_def node_at_def n_def nth_append)
  have len: "n < length (dom w2)" by (simp add: w2_def n_def)
  have fields: "heap w2 = heap (world s)" "length (dom w2) = Suc n"
    "window_on w2 = window_on (world s)"
    "trace w2 = trace (world s) @
       [Ref (Some n), Call InitFn (Some n) (i_state_data (this s)) (c_options C),
        Call RenderFn (Some n) (i_state_data (this s)) (c_options C)]"
    by (simp_all add: w2_def n_def)
  have st: "sel_style (Some n) ''width'' w2 = Inr (rendered_size st ''width'')"
    "sel_style (Some n) ''height'' w2 = Inr (rendered_size st ''height'')"
    by (simp_all add: sel_style_def nd rendered_size_def) (simp_all add: nd_def)
  have idv: "map_of ats ''id'' = Some (VStr (i_id (this s)))"
    by (simp add: ats_def render_def)
  have idv2: "map_of (attrs (node_at w2 n)) ''id'' = Some (VStr (i_id (this s)))"
    by (simp add: nd) (simp add: nd_def idv)
  from makeResponsiveSVG_Some [OF len st] obtain w'
    where w': "makeResponsiveSVG (Some n) w2 = Inr w'" "heap w' = heap w2"
      "length (dom w') = length (dom w2)"
      "\<forall>m. node_at w' m =
         (if m = n then (node_at w2 n)\<lparr>attrs := sized (rendered_size st ''width'')
              (rendered_size st ''height'') (attrs (node_at w2 n))\<rparr>
          else node_at w2 m)"
      "trace w' = trace w2 @ [Register (''resize.'' @ i_id (this s))]"
      "window_on w' = window_on (window_on_add (''resize.'' @ i_id (this s)) (Resize (Some n)) w2)"
    unfolding idv2 by (auto simp: to_string_def)
  have wo: "window_on w' =
      window_on (window_on_add (''resize.'' @ i_id (this s)) (Resize (Some n)) (world s))"
    unfolding w'(6) by (rule window_on_add_cong) (rule fields(3))
  have m: "mount C st s =
      Inr \<lparr>phase = Mounted, this = (this s)\<lparr>i_node := Some n\<rparr>, renders = renders s + 1, world = w'\<rparr>"
    using w'(1)
    by (simp add: mount_def create_svg_def componentDidMount_def ref_def Let_def n_def w2_def
        nd_def ats_def)
  have at: "attrs (node_at w' n) = sized (rendered_size st ''width'')
              (rendered_size st ''height'') ats"
    "attached (node_at w' n)" "styles (node_at w' n) = st"
    using w'(4) nd(1) by (simp_all add: nd_def)
  have other: "\<forall>m. m \<noteq> n \<longrightarrow> node_at w' m = node_at (world s) m"
    using w'(4) nd(2) by simp
  show ?thesis
    unfolding m
    using w'(2,3,5) wo other fields
    by (simp add: at sized_def update_conv' idv del: append.simps)
qed

section \<open>Runs of the lifecycle\<close>

lemma run_removed:
  "phase s = Removed \<Longrightarrow>
   \<exists>s'. run C es s = Inr s' \<and> phase s' = Removed \<and> this s' = this s \<and>
        renders s' = renders s \<and> window_on (world s') = window_on (world s) \<and>
        core (trace (world s')) = core (trace (world s))"
proof (induction es arbitrary: s)
  case Nil
  then show ?case by simp
next
  case (Cons e es)
  show ?case
  proof (cases e)
    case WindowResize
    let ?s1 = "s\<lparr>world := fire ''resize'' (world s)\<rparr>"
    have "phase ?s1 = Removed" using Cons.prems by simp
    from Cons.IH [OF this] show ?thesis
      using WindowResize by auto
  qed (use Cons in auto)
qed

lemma run_mounted:
  "phase s = Mounted \<Longrightarrow>
   \<exists>s'. run C es s = Inr s' \<and> renders s' = renders s \<and>
        window_on (world s') = window_on (world s) \<and>
        core (trace (world s')) = core (trace (world s)) @
          map (\<lambda>d. Call RenderFn (i_node (this s)) d (c_options C)) (delivered es) @
          (if Unmount \<in> set es then [Ref None] else [])"
proof (induction es arbitrary: s)
  case Nil
  then show ?case by simp
next
  case (Cons e es)
  show ?case
  proof (cases e)
    case (Mount st)
    with Cons show ?thesis by auto
  next
    case (Props p)
    let ?s1 = "deliver C p s"
    have s1: "phase ?s1 = Mounted" "renders ?s1 = renders s"
      "window_on (world ?s1) = window_on (world s)"
      "i_node (this ?s1) = i_node (this s)"
      "trace (world ?s1) =
         trace (world s) @ [Call RenderFn (i_node (this s)) (p_data p) (c_options C)]"
      using Cons.prems
      by (simp_all add: deliver_def componentWillReceiveProps_def shouldComponentUpdate_def Let_def)
    from Cons.IH [OF s1(1)] obtain s' where
      "run C es ?s1 = Inr s'" "renders s' = renders ?s1"
      "window_on (world s') = window_on (world ?s1)"
      "core (trace (world s')) = core (trace (world ?s1)) @
          map (\<lambda>d. Call RenderFn (i_node (this ?s1)) d (c_options C)) (delivered es) @
          (if Unmount \<in> set es then [Ref None] else [])"
      by blast
    then show ?thesis
      using Props Cons.prems s1 by (simp add: core_def)
  next
    case Unmount
    let ?s1 = "unmount s"
    have s1: "phase ?s1 = Removed" "renders ?s1 = renders s"
      "window_on (world ?s1) = window_on (world s)"
      "trace (world ?s1) = trace (world s) @ [Ref None]"
      by (simp_all add: unmount_def componentWillUnmount_def Let_def)
    from run_removed [OF s1(1), of C es] obtain s' where
      "run C es ?s1 = Inr s'" "renders s' = renders ?s1"
      "window_on (world s') = window_on (world ?s1)"
      "core (trace (world s')) = core (trace (world ?s1))"
      by blast
    then show ?thesis
      using Unmount Cons.prems s1 by (simp add: core_def)
  next
    case WindowResize
    let ?s1 = "s\<lparr>world := fire ''resize'' (world s)\<rparr>"
    have "phase ?s1 = Mounted" using Cons.prems by simp
    from Cons.IH [OF this] show ?thesis
      using WindowResize by auto
  qed
qed

lemma run_after_mount:
  assumes "phase s = Unmounted"
  shows "\<exists>s'. run C (Mount st # es) s = Inr s' \<and> renders s' = renders s + 1 \<and>
        core (trace (world s')) = core (trace (world s)) @
          [Ref (Some (length (dom (world s)))),
           Call InitFn (Some (length (dom (world s)))) (i_state_data (this s)) (c_options C),
           Call RenderFn (Some (length (dom (world s)))) (i_state_data (this s)) (c_options C),
           Register (''resize.'' @ i_id (this s))] @
          map (\<lambda>d. Call RenderFn (Some (length (dom (world s)))) d (c_options C)) (delivered es) @
          (if Unmount \<in> set es then [Ref None] else [])"
proof -
  from mount_result [of C st s] obtain s1 where
    s1: "mount C st s = Inr s1" "phase s1 = Mounted"
      "this s1 = (this s)\<lparr>i_node := Some (length (dom (world s)))\<rparr>"
      "renders s1 = renders s + 1"
      "trace (world s1) = trace (world s) @
             [Ref (Some (length (dom (world s)))),
              Call InitFn (Some (length (dom (world s)))) (i_state_data (this s)) (c_options C),
              Call RenderFn (Some (length (dom (world s)))) (i_state_data (this s)) (c_options C),
              Register (''resize.'' @ i_id (this s))]"
    by blast
  from run_mounted [OF s1(2), of C es] obtain s' where
    "run C es s1 = Inr s'" "renders s' = renders s1"
    "core (trace (world s')) = core (trace (world s1)) @
          map (\<lambda>d. Call RenderFn (i_node (this s1)) d (c_options C)) (delivered es) @
          (if Unmount \<in> set es then [Ref None] else [])"
    by blast
  then show ?thesis
    using assms s1 by (simp add: core_def del: append.simps)
qed

section \<open>The lifecycle claims\<close>

lemma start_fields [simp]:
  "phase (start C p i w) = Unmounted" "renders (start C p i w) = 0"
  "world (start C p i w) = w" "i_id (this (start C p i w)) = i"
  "i_state_data (this (start C p i w)) = p_data p" "i_node (this (start C p i w)) = None"
  by (simp_all add: start_def constructor_def)

text \<open>
  Claim C3, as stated, fails in its last clause. An instance is mounted with data 1 and
  the host then delivers props in which only \<^verbatim>\<open>className\<close> has changed and the data
  are the same: \<^verbatim>\<open>componentWillReceiveProps\<close> does not compare the data and calls
  \<^verbatim>\<open>renderFn\<close> a second time, with the unchanged data. A re-render of the host that
  delivers no new data has triggered a drawing callback.
\<close>

theorem classname_change_calls_renderFn:
  "calls_of (run example_component
       [Mount [], Props \<lparr>p_data = VNum 1, p_className = VStr ''other''\<rparr>]
       (start example_component \<lparr>p_data = VNum 1, p_className = VUndefined\<rparr> ''a''
          example_world)) =
     [Call InitFn (Some 0) (VNum 1) 2, Call RenderFn (Some 0) (VNum 1) 2,
      Call RenderFn (Some 0) (VNum 1) 2]"
proof -
  let ?s0 = "start example_component \<lparr>p_data = VNum 1, p_className = VUndefined\<rparr> ''a''
          example_world"
  let ?es = "[Props \<lparr>p_data = VNum 1, p_className = VStr ''other''\<rparr>]"
  have "phase ?s0 = Unmounted" by simp
  from run_after_mount [OF this, of example_component "[]" ?es] obtain s' where
    r: "run example_component (Mount [] # ?es) ?s0 = Inr s'"
    and c: "core (trace (world s')) = core (trace (world ?s0)) @
          [Ref (Some (length (dom (world ?s0)))),
           Call InitFn (Some (length (dom (world ?s0)))) (i_state_data (this ?s0))
             (c_options example_component),
           Call RenderFn (Some (length (dom (world ?s0)))) (i_state_data (this ?s0))
             (c_options example_component),
           Register (''resize.'' @ i_id (this ?s0))] @
          map (\<lambda>d. Call RenderFn (Some (length (dom (world ?s0)))) d (c_options example_component))
            (delivered ?es) @
          (if Unmount \<in> set ?es then [Ref None] else [])"
    by blast
  have "calls (trace (world s')) = calls (core (trace (world s')))" by simp
  also have "\<dots> = [Call InitFn (Some 0) (VNum 1) 2, Call RenderFn (Some 0) (VNum 1) 2,
      Call RenderFn (Some 0) (VNum 1) 2]"
    unfolding c by (simp add: example_world_def example_component_def)
  finally show ?thesis
    unfolding r calls_of_def by simp
qed

text \<open>
  Claim C3, amended. An instance is mounted with data \<open>d0 = p_data p\<close> and then receives
  any events \<open>es\<close>: deliveries of props, window resizes, its unmount, even further mount
  events. The callbacks called are then exactly: \<^verbatim>\<open>initFn\<close> once, with \<open>d0\<close>; then
  \<^verbatim>\<open>renderFn\<close> once with \<open>d0\<close> and once for every delivery of props, with the data
  of that delivery and in the order of delivery, whether or not these data differ from
  the data held before; all of them with the same node and the same options. So
  \<^verbatim>\<open>initFn\<close> is never called on a delivery, no event other than the mount and a
  delivery of props calls a callback, \<^verbatim>\<open>render\<close> has run once, and
  \<^verbatim>\<open>shouldComponentUpdate\<close> refuses any re-render.
\<close>

theorem callbacks_follow_deliveries:
  "\<exists>s'. run C (Mount st # es) (start C p i w) = Inr s' \<and>
      calls (trace (world s')) =
        calls (trace w) @
        Call InitFn (Some (length (dom w))) (p_data p) (c_options C) #
        map (\<lambda>d. Call RenderFn (Some (length (dom w))) d (c_options C)) (p_data p # delivered es) \<and>
      renders s' = 1 \<and> \<not> shouldComponentUpdate (this s')"
proof -
  have "phase (start C p i w) = Unmounted" by simp
  from run_after_mount [OF this, of C st es] obtain s' where
    r: "run C (Mount st # es) (start C p i w) = Inr s'" "renders s' = 1"
    and c: "core (trace (world s')) = core (trace w) @
          [Ref (Some (length (dom w))),
           Call InitFn (Some (length (dom w))) (p_data p) (c_options C),
           Call RenderFn (Some (length (dom w))) (p_data p) (c_options C),
           Register (''resize.'' @ i)] @
          map (\<lambda>d. Call RenderFn (Some (length (dom w))) d (c_options C)) (delivered es) @
          (if Unmount \<in> set es then [Ref None] else [])"
    by auto
  have "calls (trace (world s')) = calls (core (trace (world s')))" by simp
  also have "\<dots> = calls (trace w) @
        Call InitFn (Some (length (dom w))) (p_data p) (c_options C) #
        map (\<lambda>d. Call RenderFn (Some (length (dom w))) d (c_options C)) (p_data p # delivered es)"
    unfolding c by simp
  finally show ?thesis
    using r by (auto simp: shouldComponentUpdate_def)
qed

theorem callbacks_follow_deliveries_witness:
  "\<exists>s'. run example_component
        [Mount [], Props \<lparr>p_data = VNum 2, p_className = VUndefined\<rparr>]
        (start example_component \<lparr>p_data = VNum 1, p_className = VUndefined\<rparr> ''a''
           example_world) = Inr s' \<and>
      calls (trace (world s')) =
        [Call InitFn (Some 0) (VNum 1) 2, Call RenderFn (Some 0) (VNum 1) 2,
         Call RenderFn (Some 0) (VNum 2) 2]"
  using callbacks_follow_deliveries [of example_component "[]"
      "[Props \<lparr>p_data = VNum 2, p_className = VUndefined\<rparr>]"
      "\<lparr>p_data = VNum 1, p_className = VUndefined\<rparr>" "''a''" example_world]
  by (auto simp: example_world_def example_component_def)

text \<open>
  Claim C6. The mount transition of an instance (with an id free of white space) adds to
  the trace, in this order: the binding of the node by the \<^verbatim>\<open>ref\<close> callback, the
  call of \<^verbatim>\<open>initFn\<close> with the node, the current data and the options, the call of
  \<^verbatim>\<open>renderFn\<close> with the same arguments, and the registration by the Responsive Sizer,
  after which the window holds the resize listener of this node under the instance's id.
  Whatever events follow, these four effects occur once in the life of the instance,
  before every other effect of the instance: the rest are calls of \<^verbatim>\<open>renderFn\<close> and
  the final unbinding.
\<close>

theorem mount_effects_in_order:
  assumes "\<forall>c \<in> set i. \<not> is_ws c"
  shows "(\<exists>s'. step C (Mount st) (start C p i w) = Inr s' \<and> phase s' = Mounted \<and>
       i_node (this s') = Some (length (dom w)) \<and>
       trace (world s') = trace w @
         [Ref (Some (length (dom w))),
          Call InitFn (Some (length (dom w))) (p_data p) (c_options C),
          Call RenderFn (Some (length (dom w))) (p_data p) (c_options C),
          Register (''resize.'' @ i)] \<and>
       window_on (world s') =
         filter (\<lambda>(k, _). k \<noteq> (''resize'', i)) (window_on w) @
         [((''resize'', i), Resize (Some (length (dom w))))]) \<and>
   (\<forall>es. \<exists>s'. run C (Mount st # es) (start C p i w) = Inr s' \<and>
       core (trace (world s')) = core (trace w) @
         [Ref (Some (length (dom w))),
          Call InitFn (Some (length (dom w))) (p_data p) (c_options C),
          Call RenderFn (Some (length (dom w))) (p_data p) (c_options C),
          Register (''resize.'' @ i)] @
         map (\<lambda>d. Call RenderFn (Some (length (dom w))) d (c_options C)) (delivered es) @
         (if Unmount \<in> set es then [Ref None] else []))"
proof (intro conjI allI)
  from mount_result [of C st "start C p i w"] obtain s' where
    s': "step C (Mount st) (start C p i w) = Inr s'" "phase s' = Mounted"
      "i_node (this s') = Some (length (dom w))"
      "trace (world s') = trace w @
         [Ref (Some (length (dom w))),
          Call InitFn (Some (length (dom w))) (p_data p) (c_options C),
          Call RenderFn (Some (length (dom w))) (p_data p) (c_options C),
          Register (''resize.'' @ i)]"
      "window_on (world s') =
         window_on (window_on_add (''resize.'' @ i) (Resize (Some (length (dom w)))) w)"
    by auto
  have "window_on (world s') =
         filter (\<lambda>(k, _). k \<noteq> (''resize'', i)) (window_on w) @
         [((''resize'', i), Resize (Some (length (dom w))))]"
    unfolding s'(5) by (rule window_on_add_resize [OF assms])
  with s'(1-4)
  show "\<exists>s'. step C (Mount st) (start C p i w) = Inr s' \<and> phase s' = Mounted \<and>
       i_node (this s') = Some (length (dom w)) \<and>
       trace (world s') = trace w @
         [Ref (Some (length (dom w))),
          Call InitFn (Some (length (dom w))) (p_data p) (c_options C),
          Call RenderFn (Some (length (dom w))) (p_data p) (c_options C),
          Register (''resize.'' @ i)] \<and>
       window_on (world s') =
         filter (\<lambda>(k, _). k \<noteq> (''resize'', i)) (window_on w) @
         [((''resize'', i), Resize (Some (length (dom w))))]"
    by blast
next
  fix es
  have "phase (start C p i w) = Unmounted" by simp
  from run_after_mount [OF this, of C st es]
  show "\<exists>s'. run C (Mount st # es) (start C p i w) = Inr s' \<and>
       core (trace (world s')) = core (trace w) @
         [Ref (Some (length (dom w))),
          Call InitFn (Some (length (dom w))) (p_data p) (c_options C),
          Call RenderFn (Some (length (dom w))) (p_data p) (c_options C),
          Register (''resize.'' @ i)] @
         map (\<lambda>d. Call RenderFn (Some (length (dom w))) d (c_options C)) (delivered es) @
         (if Unmount \<in> set es then [Ref None] else [])"
    by auto
qed

theorem mount_effects_in_order_witness:
  "(\<exists>s'. step example_component (Mount [])
        (start example_component \<lparr>p_data = VNum 1, p_className = VUndefined\<rparr> ''a''
           example_world) = Inr s' \<and>
      trace (world s') =
        [Ref (Some 0), Call InitFn (Some 0) (VNum 1) 2, Call RenderFn (Some 0) (VNum 1) 2,
         Register ''resize.a''] \<and>
      window_on (world s') = [((''resize'', ''a''), Resize (Some 0))]) \<and>
   (\<exists>s'. run example_component [Mount [], Unmount]
        (start example_component \<lparr>p_data = VNum 1, p_className = VUndefined\<rparr> ''a''
           example_world) = Inr s' \<and>
      core (trace (world s')) =
        [Ref (Some 0), Call InitFn (Some 0) (VNum 1) 2, Call RenderFn (Some 0) (VNum 1) 2,
         Register ''resize.a'', Ref None])"
proof -
  have ws: "\<forall>c \<in> set ''a''. \<not> is_ws c" by (simp add: is_ws_def)
  note m = mount_effects_in_order [OF ws, of example_component "[]"
      "\<lparr>p_data = VNum 1, p_className = VUndefined\<rparr>" example_world]
  from m have "\<exists>s'. step example_component (Mount [])
        (start example_component \<lparr>p_data = VNum 1, p_className = VUndefined\<rparr> ''a''
           example_world) = Inr s' \<and>
      trace (world s') = trace example_world @
         [Ref (Some (length (dom example_world))),
          Call InitFn (Some (length (dom example_world)))
            (p_data \<lparr>p_data = VNum 1, p_className = VUndefined\<rparr>) (c_options example_component),
          Call RenderFn (Some (length (dom example_world)))
            (p_data \<lparr>p_data = VNum 1, p_className = VUndefined\<rparr>) (c_options example_component),
          Register (''resize.'' @ ''a'')] \<and>
      window_on (world s') =
         filter (\<lambda>(k, _). k \<noteq> (''resize'', ''a'')) (window_on example_world) @
         [((''resize'', ''a''), Resize (Some (length (dom example_world))))]"
    by blast
  then have a: "\<exists>s'. step example_component (Mount [])
        (start example_component \<lparr>p_data = VNum 1, p_className = VUndefined\<rparr> ''a''
           example_world) = Inr s' \<and>
      trace (world s') =
        [Ref (Some 0), Call InitFn (Some 0) (VNum 1) 2, Call RenderFn (Some 0) (VNum 1) 2,
         Register ''resize.a''] \<and>
      window_on (world s') = [((''resize'', ''a''), Resize (Some 0))]"
    by (simp add: example_world_def example_component_def)
  from m have "\<exists>s'. run example_component (Mount [] # [Unmount])
        (start example_component \<lparr>p_data = VNum 1, p_className = VUndefined\<rparr> ''a''
           example_world) = Inr s' \<and>
       core (trace (world s')) = core (trace example_world) @
         [Ref (Some (length (dom example_world))),
          Call InitFn (Some (length (dom example_world)))
            (p_data \<lparr>p_data = VNum 1, p_className = VUndefined\<rparr>) (c_options example_component),
          Call RenderFn (Some (length (dom example_world)))
            (p_data \<lparr>p_data = VNum 1, p_className = VUndefined\<rparr>) (c_options example_component),
          Register (''resize.'' @ ''a'')] @
         map (\<lambda>d. Call RenderFn (Some (length (dom example_world))) d (c_options example_component))
           (delivered [Unmount]) @
         (if Unmount \<in> set [Unmount] then [Ref None] else [])"
    by blast
  then have b: "\<exists>s'. run example_component [Mount [], Unmount]
        (start example_component \<lparr>p_data = VNum 1, p_className = VUndefined\<rparr> ''a''
           example_world) = Inr s' \<and>
      core (trace (world s')) =
        [Ref (Some 0), Call InitFn (Some 0) (VNum 1) 2, Call RenderFn (Some 0) (VNum 1) 2,
         Register ''resize.a'', Ref None]"
    by (simp add: example_world_def example_component_def core_def)
  from a b show ?thesis by blast
qed

lemma handler_reapplies_fill:
  "n < length (dom w) \<Longrightarrow>
   sel_attr_get (Some n) ''width'' (run_handler (Resize (Some n)) w) = Inr (VStr ''100%'') \<and>
   sel_attr_get (Some n) ''height'' (run_handler (Resize (Some n)) w) = Inr (VStr ''100%'')"
  by (simp add: sel_attr_get_def node_at_resize update_conv')

text \<open>
  Claim C7. When an instance whose id has no white space is mounted, the Responsive Sizer
  reads the rendered width and height of the new element, sets its \<^verbatim>\<open>viewBox\<close> to
  \<^verbatim>\<open>0 0 width height\<close> (the two sizes parsed as integers, which are doubles and
  are printed as such), sets
  \<^verbatim>\<open>preserveAspectRatio\<close> to \<^verbatim>\<open>xMinYMid\<close> and the displayed width and height to
  \<^verbatim>\<open>100%\<close>, and registers on the window, under the event type \<^verbatim>\<open>resize\<close> and the name
  equal to the instance's id, a handler that sets the width and height of that element to
  \<^verbatim>\<open>100%\<close> again. Ids made by \<^verbatim>\<open>shortid\<close> have no white space.
\<close>

theorem responsive_sizer_at_mount:
  assumes "\<forall>c \<in> set i. \<not> is_ws c"
  shows "\<exists>s'. step C (Mount st) (start C p i w) = Inr s' \<and>
      i_node (this s') = Some (length (dom w)) \<and>
      sel_style (i_node (this s')) ''width'' (world s') = Inr (rendered_size st ''width'') \<and>
      sel_style (i_node (this s')) ''height'' (world s') = Inr (rendered_size st ''height'') \<and>
      sel_attr_get (i_node (this s')) ''viewBox'' (world s') =
        Inr (VStr (''0 0 '' @ show_num (parseInt (rendered_size st ''width'')) @ '' '' @
                   show_num (parseInt (rendered_size st ''height'')))) \<and>
      sel_attr_get (i_node (this s')) ''preserveAspectRatio'' (world s') = Inr (VStr ''xMinYMid'') \<and>
      sel_attr_get (i_node (this s')) ''width'' (world s') = Inr (VStr ''100%'') \<and>
      sel_attr_get (i_node (this s')) ''height'' (world s') = Inr (VStr ''100%'') \<and>
      sel_attr_get (i_node (this s')) ''id'' (world s') = Inr (VStr i) \<and>
      window_on (world s') =
        filter (\<lambda>(k, _). k \<noteq> (''resize'', i)) (window_on w) @
        [((''resize'', i), Resize (i_node (this s')))] \<and>
      (\<forall>w'. length (dom w) < length (dom w') \<longrightarrow>
         sel_attr_get (i_node (this s')) ''width'' (run_handler (Resize (i_node (this s'))) w') =
           Inr (VStr ''100%'') \<and>
         sel_attr_get (i_node (this s')) ''height'' (run_handler (Resize (i_node (this s'))) w') =
           Inr (VStr ''100%''))"
proof -
  from mount_result [of C st "start C p i w"] obtain s' where
    s': "step C (Mount st) (start C p i w) = Inr s'"
      "this s' = (this (start C p i w))\<lparr>i_node := Some (length (dom w))\<rparr>"
      "styles (node_at (world s') (length (dom w))) = st"
      "map_of (attrs (node_at (world s') (length (dom w)))) ''id'' = Some (VStr i)"
      "map_of (attrs (node_at (world s') (length (dom w)))) ''viewBox'' =
             Some (VStr (''0 0 '' @ show_num (parseInt (rendered_size st ''width'')) @ '' '' @
                         show_num (parseInt (rendered_size st ''height''))))"
      "map_of (attrs (node_at (world s') (length (dom w)))) ''preserveAspectRatio'' =
         Some (VStr ''xMinYMid'')"
      "map_of (attrs (node_at (world s') (length (dom w)))) ''width'' = Some (VStr ''100%'')"
      "map_of (attrs (node_at (world s') (length (dom w)))) ''height'' = Some (VStr ''100%'')"
      "window_on (world s') =
         window_on (window_on_add (''resize.'' @ i) (Resize (Some (length (dom w)))) w)"
    by auto
  have nd: "i_node (this s') = Some (length (dom w))"
    using s'(2) by simp
  have wo: "window_on (world s') =
        filter (\<lambda>(k, _). k \<noteq> (''resize'', i)) (window_on w) @
        [((''resize'', i), Resize (Some (length (dom w))))]"
    unfolding s'(9) by (rule window_on_add_resize [OF assms])
  have rd: "sel_style (Some (length (dom w))) ''width'' (world s') = Inr (rendered_size st ''width'')"
    "sel_style (Some (length (dom w))) ''height'' (world s') = Inr (rendered_size st ''height'')"
    by (simp_all add: sel_style_def s'(3) rendered_size_def)
  have at: "sel_attr_get (Some (length (dom w))) ''viewBox'' (world s') =
        Inr (VStr (''0 0 '' @ show_num (parseInt (rendered_size st ''width'')) @ '' '' @
                   show_num (parseInt (rendered_size st ''height''))))"
    "sel_attr_get (Some (length (dom w))) ''preserveAspectRatio'' (world s') = Inr (VStr ''xMinYMid'')"
    "sel_attr_get (Some (length (dom w))) ''width'' (world s') = Inr (VStr ''100%'')"
    "sel_attr_get (Some (length (dom w))) ''height'' (world s') = Inr (VStr ''100%'')"
    "sel_attr_get (Some (length (dom w))) ''id'' (world s') = Inr (VStr i)"
    by (simp_all add: sel_attr_get_def s'(4-8) del: append.simps)
  show ?thesis
    using s'(1) handler_reapplies_fill [of "length (dom w)"]
    by (intro exI [of _ s']) (simp add: nd wo rd at del: append.simps)
qed

theorem responsive_sizer_at_mount_witness:
  "(\<exists>s'. step example_component (Mount [(''width'', ''400px''), (''height'', ''500px'')])
        (start example_component \<lparr>p_data = VNum 1, p_className = VUndefined\<rparr> ''ab-1''
           example_world) = Inr s' \<and>
      sel_attr_get (Some 0) ''viewBox'' (world s') = Inr (VStr ''0 0 400 500'') \<and>
      window_on (world s') = [((''resize'', ''ab-1''), Resize (Some 0))]) \<and>
   (\<exists>s'. step example_component
        (Mount [(''width'', ''9007199254740993px''), (''height'', ''1000000000000000000000px'')])
        (start example_component \<lparr>p_data = VNum 1, p_className = VUndefined\<rparr> ''ab-1''
           example_world) = Inr s' \<and>
      sel_attr_get (Some 0) ''viewBox'' (world s') = Inr (VStr ''0 0 9007199254740992 1e+21''))"
proof -
  have ws: "\<forall>c \<in> set ''ab-1''. \<not> is_ws c" by (simp add: is_ws_def)
  have r1: "rendered_size [(''width'', ''400px''), (''height'', ''500px'')] ''width'' = ''400px''"
    "rendered_size [(''width'', ''400px''), (''height'', ''500px'')] ''height'' = ''500px''"
    by (simp_all add: rendered_size_def)
  have r2: "rendered_size
        [(''width'', ''9007199254740993px''), (''height'', ''1000000000000000000000px'')] ''width'' =
      ''9007199254740993px''"
    "rendered_size
        [(''width'', ''9007199254740993px''), (''height'', ''1000000000000000000000px'')] ''height'' =
      ''1000000000000000000000px''"
    by (simp_all add: rendered_size_def)
  from responsive_sizer_at_mount [OF ws, of example_component
      "[(''width'', ''400px''), (''height'', ''500px'')]"
      "\<lparr>p_data = VNum 1, p_className = VUndefined\<rparr>" example_world]
  have a: "\<exists>s'. step example_component (Mount [(''width'', ''400px''), (''height'', ''500px'')])
        (start example_component \<lparr>p_data = VNum 1, p_className = VUndefined\<rparr> ''ab-1''
           example_world) = Inr s' \<and>
      sel_attr_get (Some 0) ''viewBox'' (world s') = Inr (VStr ''0 0 400 500'') \<and>
      window_on (world s') = [((''resize'', ''ab-1''), Resize (Some 0))]"
    unfolding r1 sizes_are_doubles by (auto simp: example_world_def)
  from responsive_sizer_at_mount [OF ws, of example_component
      "[(''width'', ''9007199254740993px''), (''height'', ''1000000000000000000000px'')]"
      "\<lparr>p_data = VNum 1, p_className = VUndefined\<rparr>" example_world]
  have b: "\<exists>s'. step example_component
        (Mount [(''width'', ''9007199254740993px''), (''height'', ''1000000000000000000000px'')])
        (start example_component \<lparr>p_data = VNum 1, p_className = VUndefined\<rparr> ''ab-1''
           example_world) = Inr s' \<and>
      sel_attr_get (Some 0) ''viewBox'' (world s') = Inr (VStr ''0 0 9007199254740992 1e+21'')"
    unfolding r2 sizes_are_doubles by (auto simp: example_world_def)
  from a b show ?thesis by blast
qed

text \<open>
  Claim C8. On any bound element the Responsive Sizer returns normally and does the same
  for every rendered size: it writes the \<^verbatim>\<open>viewBox\<close> from the two parsed sizes, the
  alignment and the two \<^verbatim>\<open>100%\<close>, registers the resize listener under the element's
  id and touches nothing else. Where the rendered width or height is unset or zero, the
  size it writes into the \<^verbatim>\<open>viewBox\<close> is \<^verbatim>\<open>NaN\<close> or \<^verbatim>\<open>0\<close>: the rectangle is
  degenerate, and no step of the sizer is left out or fails.
\<close>

theorem degenerate_geometry_tolerated:
  assumes "n < length (dom w)"
    and "sel_style (Some n) ''width'' w = Inr sw" and "sel_style (Some n) ''height'' w = Inr sh"
    and "sel_attr_get (Some n) ''id'' w = Inr (VStr i)" and "\<forall>c \<in> set i. \<not> is_ws c"
  shows "\<exists>w'. makeResponsiveSVG (Some n) w = Inr w' \<and>
      sel_attr_get (Some n) ''viewBox'' w' =
        Inr (VStr (''0 0 '' @ show_num (parseInt sw) @ '' '' @ show_num (parseInt sh))) \<and>
      (unsized sw \<longrightarrow> show_num (parseInt sw) = ''NaN'' \<or> show_num (parseInt sw) = ''0'') \<and>
      (unsized sh \<longrightarrow> show_num (parseInt sh) = ''NaN'' \<or> show_num (parseInt sh) = ''0'') \<and>
      sel_attr_get (Some n) ''preserveAspectRatio'' w' = Inr (VStr ''xMinYMid'') \<and>
      sel_attr_get (Some n) ''width'' w' = Inr (VStr ''100%'') \<and>
      sel_attr_get (Some n) ''height'' w' = Inr (VStr ''100%'') \<and>
      window_on w' =
        filter (\<lambda>(k, _). k \<noteq> (''resize'', i)) (window_on w) @ [((''resize'', i), Resize (Some n))] \<and>
      trace w' = trace w @ [Register (''resize.'' @ i)] \<and>
      heap w' = heap w \<and>
      (\<forall>m. m \<noteq> n \<longrightarrow> node_at w' m = node_at w m)"
proof -
  have idv: "(case map_of (attrs (node_at w n)) ''id'' of None \<Rightarrow> VNull | Some v \<Rightarrow> v) = VStr i"
    using assms(4) by (simp add: sel_attr_get_def)
  from makeResponsiveSVG_Some [OF assms(1-3)] obtain w' where
    w': "makeResponsiveSVG (Some n) w = Inr w'" "heap w' = heap w"
      "\<forall>m. node_at w' m =
         (if m = n then (node_at w n)\<lparr>attrs := sized sw sh (attrs (node_at w n))\<rparr>
          else node_at w m)"
      "trace w' = trace w @ [Register (''resize.'' @ i)]"
      "window_on w' = window_on (window_on_add (''resize.'' @ i) (Resize (Some n)) w)"
    unfolding idv by (auto simp: to_string_def)
  have at: "sel_attr_get (Some n) ''viewBox'' w' =
        Inr (VStr (''0 0 '' @ show_num (parseInt sw) @ '' '' @ show_num (parseInt sh)))"
    "sel_attr_get (Some n) ''preserveAspectRatio'' w' = Inr (VStr ''xMinYMid'')"
    "sel_attr_get (Some n) ''width'' w' = Inr (VStr ''100%'')"
    "sel_attr_get (Some n) ''height'' w' = Inr (VStr ''100%'')"
    using w'(3) by (simp_all add: sel_attr_get_def sized_def update_conv' del: append.simps)
  have wo: "window_on w' =
        filter (\<lambda>(k, _). k \<noteq> (''resize'', i)) (window_on w) @ [((''resize'', i), Resize (Some n))]"
    unfolding w'(5) by (rule window_on_add_resize [OF assms(5)])
  have deg: "unsized sw \<longrightarrow> show_num (parseInt sw) = ''NaN'' \<or> show_num (parseInt sw) = ''0''"
    "unsized sh \<longrightarrow> show_num (parseInt sh) = ''NaN'' \<or> show_num (parseInt sh) = ''0''"
    by (blast dest: show_unsized)+
  have other: "\<forall>m. m \<noteq> n \<longrightarrow> node_at w' m = node_at w m"
    using w'(3) by simp
  from w'(1) at(1) deg at(2-4) wo w'(4) w'(2) other show ?thesis
    by - (rule exI [of _ w'], (rule conjI, assumption)+, assumption)
qed

theorem degenerate_geometry_tolerated_witness:
  "unsized ''0px'' \<and> unsized '''' \<and>
   (\<exists>w'. makeResponsiveSVG (Some 0)
       \<lparr>heap = [], dom = [\<lparr>attached = True, attrs = [(''id'', VStr ''a'')],
                           styles = [(''width'', ''0px'')]\<rparr>],
        window_on = [], trace = []\<rparr> = Inr w' \<and>
     sel_attr_get (Some 0) ''viewBox'' w' = Inr (VStr ''0 0 0 NaN'') \<and>
     sel_attr_get (Some 0) ''width'' w' = Inr (VStr ''100%'') \<and>
     window_on w' = [((''resize'', ''a''), Resize (Some 0))])"
proof -
  let ?w = "\<lparr>heap = [], dom = [\<lparr>attached = True, attrs = [(''id'', VStr ''a'')],
                           styles = [(''width'', ''0px'')]\<rparr>],
        window_on = [], trace = []\<rparr>"
  have n: "0 < length (dom ?w)" by simp
  have st: "sel_style (Some 0) ''width'' ?w = Inr ''0px''" "sel_style (Some 0) ''height'' ?w = Inr ''''"
    by (simp_all add: sel_style_def node_at_def)
  have idv: "sel_attr_get (Some 0) ''id'' ?w = Inr (VStr ''a'')"
    by (simp add: sel_attr_get_def node_at_def)
  have ws: "\<forall>c \<in> set ''a''. \<not> is_ws c" by (simp add: is_ws_def)
  have u: "unsized ''0px''" "unsized ''''"
    by (simp_all add: unsized_def is_ws_def digit_val_def)
  have p: "show_num (parseInt ''0px'') = ''0''" "show_num (parseInt '''') = ''NaN''"
    by (simp_all add: eval_num)
  from degenerate_geometry_tolerated [OF n st idv ws]
  have "\<exists>w'. makeResponsiveSVG (Some 0) ?w = Inr w' \<and>
     sel_attr_get (Some 0) ''viewBox'' w' = Inr (VStr ''0 0 0 NaN'') \<and>
     sel_attr_get (Some 0) ''width'' w' = Inr (VStr ''100%'') \<and>
     window_on w' = [((''resize'', ''a''), Resize (Some 0))]"
    unfolding p by auto
  with u show ?thesis by blast
qed

text \<open>
  Claim C9. Two instances with distinct ids (without white space) are mounted one after
  the other. Their elements are distinct; the window's listener table then holds the
  listeners it held under other keys, followed by one listener per instance, each under
  the key of its own id and each the handler of its own element; a resize event calls
  each of the two handlers once, under its own key; and neither handler touches the
  element of the other instance.
\<close>

theorem concurrent_instances_keep_their_handlers:
  assumes "i \<noteq> j" and "\<forall>c \<in> set i. \<not> is_ws c" and "\<forall>c \<in> set j. \<not> is_ws c"
  shows "\<exists>s1 s2.
      step C1 (Mount st1) (start C1 p1 i w) = Inr s1 \<and>
      step C2 (Mount st2) (start C2 p2 j (world s1)) = Inr s2 \<and>
      i_node (this s1) = Some (length (dom w)) \<and>
      i_node (this s2) = Some (Suc (length (dom w))) \<and>
      window_on (world s2) =
        filter (\<lambda>(k, _). k \<noteq> (''resize'', i) \<and> k \<noteq> (''resize'', j)) (window_on w) @
        [((''resize'', i), Resize (Some (length (dom w)))),
         ((''resize'', j), Resize (Some (Suc (length (dom w)))))] \<and>
      trace (fire ''resize'' (world s2)) =
        trace (world s2) @
        map (\<lambda>(key, value). Dispatch key value)
          (filter (\<lambda>(k, _). fst k = ''resize'' \<and> k \<noteq> (''resize'', i) \<and> k \<noteq> (''resize'', j))
             (window_on w)) @
        [Dispatch (''resize'', i) (Resize (Some (length (dom w)))),
         Dispatch (''resize'', j) (Resize (Some (Suc (length (dom w)))))] \<and>
      (\<forall>w'. node_at (run_handler (Resize (Some (length (dom w)))) w') (Suc (length (dom w))) =
              node_at w' (Suc (length (dom w))) \<and>
            node_at (run_handler (Resize (Some (Suc (length (dom w))))) w') (length (dom w)) =
              node_at w' (length (dom w)))"
proof -
  from mount_result [of C1 st1 "start C1 p1 i w"] obtain s1 where
    s1: "step C1 (Mount st1) (start C1 p1 i w) = Inr s1"
      "this s1 = (this (start C1 p1 i w))\<lparr>i_node := Some (length (dom w))\<rparr>"
      "length (dom (world s1)) = Suc (length (dom w))"
      "window_on (world s1) =
         window_on (window_on_add (''resize.'' @ i) (Resize (Some (length (dom w)))) w)"
    by auto
  from mount_result [of C2 st2 "start C2 p2 j (world s1)"] obtain s2 where
    s2: "step C2 (Mount st2) (start C2 p2 j (world s1)) = Inr s2"
      "this s2 = (this (start C2 p2 j (world s1)))\<lparr>i_node := Some (length (dom (world s1)))\<rparr>"
      "window_on (world s2) =
         window_on (window_on_add (''resize.'' @ j) (Resize (Some (length (dom (world s1))))) (world s1))"
    by auto
  have t1: "window_on (world s1) =
        filter (\<lambda>(k, _). k \<noteq> (''resize'', i)) (window_on w) @
        [((''resize'', i), Resize (Some (length (dom w))))]"
    unfolding s1(4) by (rule window_on_add_resize [OF assms(2)])
  have f: "filter (\<lambda>(k, _). k \<noteq> (''resize'', j)) (filter (\<lambda>(k, _). k \<noteq> (''resize'', i)) tbl) =
      filter (\<lambda>(k, _). k \<noteq> (''resize'', i) \<and> k \<noteq> (''resize'', j)) tbl" for tbl :: "((string \<times> string) \<times> handler) list"
    by (induction tbl) auto
  have t2: "window_on (world s2) =
        filter (\<lambda>(k, _). k \<noteq> (''resize'', i) \<and> k \<noteq> (''resize'', j)) (window_on w) @
        [((''resize'', i), Resize (Some (length (dom w)))),
         ((''resize'', j), Resize (Some (Suc (length (dom w)))))]"
    unfolding s2(3) window_on_add_resize [OF assms(3)] t1 s1(3)
    using assms(1) by (simp add: f del: filter_filter)
  have g: "filter (\<lambda>(key, _). fst key = ''resize'')
        (filter (\<lambda>(k, _). k \<noteq> (''resize'', i) \<and> k \<noteq> (''resize'', j)) tbl) =
      filter (\<lambda>(k, _). fst k = ''resize'' \<and> k \<noteq> (''resize'', i) \<and> k \<noteq> (''resize'', j)) tbl"
    for tbl :: "((string \<times> string) \<times> handler) list"
    by (induction tbl) auto
  have tr: "trace (fire ''resize'' (world s2)) =
        trace (world s2) @
        map (\<lambda>(key, value). Dispatch key value)
          (filter (\<lambda>(k, _). fst k = ''resize'' \<and> k \<noteq> (''resize'', i) \<and> k \<noteq> (''resize'', j))
             (window_on w)) @
        [Dispatch (''resize'', i) (Resize (Some (length (dom w)))),
         Dispatch (''resize'', j) (Resize (Some (Suc (length (dom w)))))]"
    by (simp add: t2 g del: filter_filter)
  have n1: "i_node (this s1) = Some (length (dom w))" using s1(2) by simp
  have n2: "i_node (this s2) = Some (Suc (length (dom w)))" using s2(2) s1(3) by simp
  have h: "\<forall>w'. node_at (run_handler (Resize (Some (length (dom w)))) w') (Suc (length (dom w))) =
              node_at w' (Suc (length (dom w))) \<and>
            node_at (run_handler (Resize (Some (Suc (length (dom w))))) w') (length (dom w)) =
              node_at w' (length (dom w))"
    by (simp add: node_at_resize)
  from s1(1) s2(1) n1 n2 t2 tr h show ?thesis
    by - (rule exI [of _ s1], rule exI [of _ s2], (rule conjI, assumption)+, assumption)
qed

theorem concurrent_instances_keep_their_handlers_witness:
  "\<exists>s1 s2.
      step example_component (Mount []) (start example_component
          \<lparr>p_data = VNum 1, p_className = VUndefined\<rparr> ''a'' example_world) = Inr s1 \<and>
      step example_component (Mount []) (start example_component
          \<lparr>p_data = VNum 2, p_className = VUndefined\<rparr> ''b'' (world s1)) = Inr s2 \<and>
      window_on (world s2) =
        [((''resize'', ''a''), Resize (Some 0)), ((''resize'', ''b''), Resize (Some 1))]"
proof -
  have d: "''a'' \<noteq> ''b''" by simp
  have ws: "\<forall>c \<in> set ''a''. \<not> is_ws c" "\<forall>c \<in> set ''b''. \<not> is_ws c"
    by (simp_all add: is_ws_def)
  from concurrent_instances_keep_their_handlers [OF d ws, of example_component "[]"
      "\<lparr>p_data = VNum 1, p_className = VUndefined\<rparr>" example_world example_component "[]"
      "\<lparr>p_data = VNum 2, p_className = VUndefined\<rparr>"]
  show ?thesis
    by (auto simp: example_world_def)
qed

text \<open>
  Claim C1. The factory is called on the example of the specification; one instance, with
  id \<^verbatim>\<open>a\<close>, is mounted and unmounted, and then the window fires \<^verbatim>\<open>resize\<close>. The
  unmount detaches the element, but the listener \<^verbatim>\<open>resize.a\<close> is still registered on
  the window afterwards, and the resize event calls the handler of the unmounted
  instance: \<^verbatim>\<open>componentWillUnmount\<close> removes the node only.
\<close>

theorem unmount_keeps_resize_listener:
  "d3Conduit (VRef 0) (VRef 1) (VRef 2) example_heap = (Inr example_component, heap example_world) \<and>
   (\<exists>s'. run example_component [Mount [], Unmount, WindowResize]
           (start example_component \<lparr>p_data = VNum 1, p_className = VUndefined\<rparr> ''a''
              example_world) = Inr s' \<and>
      phase s' = Removed \<and>
      \<not> attached (node_at (world s') 0) \<and>
      window_on (world s') = [((''resize'', ''a''), Resize (Some 0))] \<and>
      trace (world s') =
        [Ref (Some 0), Call InitFn (Some 0) (VNum 1) 2, Call RenderFn (Some 0) (VNum 1) 2,
         Register ''resize.a'', Ref None, Dispatch (''resize'', ''a'') (Resize (Some 0))])"
proof -
  have ws: "\<forall>c \<in> set ''a''. \<not> is_ws c" by (simp add: is_ws_def)
  let ?s0 = "start example_component \<lparr>p_data = VNum 1, p_className = VUndefined\<rparr> ''a''
              example_world"
  from mount_result [of example_component "[]" ?s0] obtain s1 where
    s1: "mount example_component [] ?s0 = Inr s1" "phase s1 = Mounted"
      "this s1 = (this ?s0)\<lparr>i_node := Some 0\<rparr>"
      "length (dom (world s1)) = Suc 0"
      "trace (world s1) =
         [Ref (Some 0), Call InitFn (Some 0) (VNum 1) 2, Call RenderFn (Some 0) (VNum 1) 2,
          Register ''resize.a'']"
      "window_on (world s1) =
         window_on (window_on_add (''resize.'' @ ''a'') (Resize (Some 0)) example_world)"
    by (auto simp: example_world_def example_component_def)
  have t1: "window_on (world s1) = [((''resize'', ''a''), Resize (Some 0))]"
    unfolding s1(6) window_on_add_resize [OF ws] by (simp add: example_world_def)
  let ?s2 = "unmount s1"
  have s2: "phase ?s2 = Removed" "window_on (world ?s2) = [((''resize'', ''a''), Resize (Some 0))]"
    "trace (world ?s2) = trace (world s1) @ [Ref None]"
    "\<not> attached (node_at (world ?s2) 0)" "length (dom (world ?s2)) = Suc 0"
    using t1 s1(3,4)
    by (simp_all add: unmount_def componentWillUnmount_def Let_def sel_remove_def node_at_def)
  let ?s3 = "?s2\<lparr>world := fire ''resize'' (world ?s2)\<rparr>"
  have r: "run example_component [Mount [], Unmount, WindowResize] ?s0 = Inr ?s3"
    using s1(1,2) s2(1) by simp
  have a3: "\<not> attached (node_at (world ?s3) 0)"
    using s2(2,4,5) by (simp add: fire_def node_at_resize)
  have "phase ?s3 = Removed" "window_on (world ?s3) = [((''resize'', ''a''), Resize (Some 0))]"
    "trace (world ?s3) =
        [Ref (Some 0), Call InitFn (Some 0) (VNum 1) 2, Call RenderFn (Some 0) (VNum 1) 2,
         Register ''resize.a'', Ref None, Dispatch (''resize'', ''a'') (Resize (Some 0))]"
    using s2(1,2,3) s1(5) by simp_all
  with r a3 have "\<exists>s'. run example_component [Mount [], Unmount, WindowResize] ?s0 = Inr s' \<and>
      phase s' = Removed \<and>
      \<not> attached (node_at (world s') 0) \<and>
      window_on (world s') = [((''resize'', ''a''), Resize (Some 0))] \<and>
      trace (world s') =
        [Ref (Some 0), Call InitFn (Some 0) (VNum 1) 2, Call RenderFn (Some 0) (VNum 1) 2,
         Register ''resize.a'', Ref None, Dispatch (''resize'', ''a'') (Resize (Some 0))]"
    by blast
  moreover have "d3Conduit (VRef 0) (VRef 1) (VRef 2) example_heap =
      (Inr example_component, heap example_world)"
    unfolding example_world_def example_component_def example_resolved by simp
  ultimately show ?thesis by simp
qed

end
